theory Spec2Isabelle
  imports Main "HOL-Library.Word"
begin

unbundle bit_operations_syntax

section \<open>OpenLog Artemis GNSS Logger: power state, duty cycle and log file control\<close>

text \<open>
  A shallow embedding of the sketch \<^verbatim>\<open>OpenLog_Artemis_GNSS_Logging.ino\<close> and of
  \<^verbatim>\<open>menuPower\<close>. The C globals are one record, every function of the sketch is a
  function from state to state, in the order of its statements. Calls into the Arduino
  core, the Apollo3 HAL and SdFat are recorded as events of a trace; what such a call
  returns (a pin level, the success of \<^verbatim>\<open>sd.begin\<close>) comes from an environment
  indexed by the number of events so far. Functions of the repository that are not part of
  the available sources are parameters of the environment.
\<close>

subsection \<open>Types of the sketch\<close>

type_synonym byte = "8 word"
type_synonym uint64_t = "64 word"

text \<open>Arduino pin levels. \<^verbatim>\<open>PIN_POWER_LOSS\<close> is driven by the voltage supervisor: the sketch
  attaches \<^verbatim>\<open>lowPowerISR\<close> to its FALLING edge and powers down when it reads LOW, so LOW
  means that power is absent and HIGH that power is present.\<close>

datatype level = LOW | HIGH

definition powerAbsent :: "level \<Rightarrow> bool" where
  "powerAbsent l = (l = LOW)"

text \<open>\<^verbatim>\<open>enum returnStatus\<close>: \<^verbatim>\<open>STATUS_GETBYTE_TIMEOUT = 255\<close>.\<close>

definition STATUS_GETBYTE_TIMEOUT :: byte where
  "STATUS_GETBYTE_TIMEOUT = 255"

text \<open>The fields of \<^verbatim>\<open>struct_settings\<close> that the sketch and \<^verbatim>\<open>menuPower\<close> use. The header
  \<^verbatim>\<open>settings.h\<close> is not among the sources: the flags are taken to be \<^verbatim>\<open>bool\<close> (the code
  compares them with \<^verbatim>\<open>true\<close>) and the durations \<^verbatim>\<open>uint64_t\<close> (the code divides them by
  \<^verbatim>\<open>1000ULL\<close>).\<close>

record struct_settings =
  nextDataLogNumber :: int
  usLoggingDuration :: uint64_t
  usSleepDuration :: uint64_t
  openNewLogFile :: bool
  enableSD :: bool
  logData :: bool
  enableTerminalOutput :: bool
  printMajorDebugMessages :: bool
  printMinorDebugMessages :: bool
  wakeOnPowerReconnect :: bool
  powerDownQwiicBusBetweenReads :: bool
  enablePwrLedDuringSleep :: bool

text \<open>\<^verbatim>\<open>APM3_RTC myRTC\<close>: the calendar fields that \<^verbatim>\<open>getTime\<close> fills in.\<close>

record rtc_time =
  year :: nat
  month :: nat
  dayOfMonth :: nat
  hour :: nat
  minute :: nat
  seconds :: nat

text \<open>The card as SdFat shows it to the sketch: named files with their bytes and their three
  time stamps (year, month, day, hour, minute, second), and the flags of \<^verbatim>\<open>open\<close> and
  \<^verbatim>\<open>timestamp\<close>.\<close>

type_synonym datetime = "nat \<times> nat \<times> nat \<times> nat \<times> nat \<times> nat"

record fs_file =
  bytes :: "byte list"
  t_create :: "datetime option"
  t_access :: "datetime option"
  t_write :: "datetime option"

datatype oflag = O_CREAT | O_APPEND | O_WRITE | O_TRUNC

datatype tflag = T_CREATE | T_ACCESS | T_WRITE

text \<open>The globals of the sketch. \<^verbatim>\<open>gnssDataFile\<close> is \<^verbatim>\<open>None\<close> while the handle is closed
  and holds the name and the flags of the open file otherwise. \<^verbatim>\<open>gnssDataFileName\<close> is the
  content of \<^verbatim>\<open>char gnssDataFileName[30]\<close> up to its terminating zero, so it has at most 29
  characters. \<^verbatim>\<open>g_wakeOnPowerReconnect\<close>
  is the volatile global \<^verbatim>\<open>wakeOnPowerReconnect\<close> (the copy for the ISR); the field of the
  same name in \<^verbatim>\<open>settings\<close> keeps the plain name.\<close>

record globals =
  settings :: struct_settings
  online_microSD :: bool
  online_dataLogging :: bool
  sd :: "string \<rightharpoonup> fs_file"
  gnssDataFile :: "(string \<times> oflag set) option"
  gnssDataFileName :: string
  beginSensorOutput :: string
  myRTC :: rtc_time
  measurementStartTime :: uint64_t
  rtcHasBeenSyncd :: bool
  rtcNeedsSync :: bool
  g_wakeOnPowerReconnect :: bool
  lowPowerSeen :: bool
  waitingForReset :: bool
  lowPowerIntAttached :: bool

text \<open>Events: the calls whose order the properties speak about have a constructor of their
  own; every other call into a library is \<^verbatim>\<open>Call\<close> with its text. \<^verbatim>\<open>Print\<close> is the output of
  a string literal or of a number on the serial port, \<^verbatim>\<open>PrintString\<close> the output of the content
  of a \<^verbatim>\<open>String\<close> object. \<^verbatim>\<open>Ev_strcpy_overrun\<close> is a \<^verbatim>\<open>strcpy\<close> that writes past the end of its
  destination. \<^verbatim>\<open>Poll b\<close> is one evaluation of \<^verbatim>\<open>lowPowerSeen == true\<close> at a
  checkpoint, \<^verbatim>\<open>GuardRead l\<close> the \<^verbatim>\<open>digitalRead(PIN_POWER_LOSS)\<close> of the start-up guard.\<close>

datatype event =
    Call string
  | Print string
  | PrintString string
  | Delay nat
  | Poll bool
  | GuardRead level
  | Ev_powerDown
  | Ev_loadSettings
  | Ev_beginSensors
  | Ev_menuMain
  | Ev_storeData
  | Ev_goToSleep
  | Ev_findNextAvailableLog
  | Ev_strcpy_overrun
  | Ev_sd_begin bool
  | Ev_sd_chdir bool
  | Ev_open string "oflag set" bool
  | Ev_getTime
  | Ev_timestamp "tflag set" datetime bool
  | Ev_wdt_int_clear
  | Ev_wdt_restart

record sys =
  glob :: globals
  trace :: "event list"
  halted :: bool

text \<open>The environment. The first group is what the hardware and the libraries answer at a
  given moment (the moment is the number of events so far). The second group is the
  functions of the repository whose source is not available: each is a parameter; a
  \<^verbatim>\<open>void\<close> function maps the globals to \<^verbatim>\<open>None\<close> when it never returns (it may power the
  board down) and to the globals it leaves otherwise.\<close>

record env =
  pinPowerLoss :: "nat \<Rightarrow> level"
  lowPowerIRQ :: "nat \<Rightarrow> bool"
  serialAvailable :: "nat \<Rightarrow> bool"
  sdBeginOk :: "nat \<Rightarrow> bool"
  sdChdirOk :: "nat \<Rightarrow> bool"
  fileOpenOk :: "nat \<Rightarrow> bool"
  timestampOk :: "nat \<Rightarrow> bool"
  rtcClock :: "nat \<Rightarrow> rtc_time"
  rtcMillis :: "nat \<Rightarrow> uint64_t"
  powerDown :: "globals \<Rightarrow> globals option"
  loadSettings :: "globals \<Rightarrow> globals option"
  beginSensors :: "globals \<Rightarrow> (bool \<times> globals) option"
  menuMain :: "globals \<Rightarrow> globals option"
  storeData :: "globals \<Rightarrow> globals option"
  goToSleep :: "globals \<Rightarrow> globals option"
  findNextAvailableLog :: "int \<Rightarrow> string \<Rightarrow> globals \<Rightarrow> string \<times> globals"

subsection \<open>Interrupts, events and sequencing\<close>

text \<open>Modelled from the spec: \<^verbatim>\<open>lowPowerISR\<close> is not among the sources; the spec says that
  the power-loss interrupt handler only sets the flag.\<close>

definition lowPowerISR :: "globals \<Rightarrow> globals" where
  "lowPowerISR gl = gl\<lparr>lowPowerSeen := True\<rparr>"

text \<open>The falling-edge interrupt can arrive during any event once it is attached.\<close>

definition tick :: "env \<Rightarrow> nat \<Rightarrow> globals \<Rightarrow> globals" where
  "tick e n gl = (if lowPowerIntAttached gl \<and> lowPowerIRQ e n then lowPowerISR gl else gl)"

definition emit :: "event \<Rightarrow> env \<Rightarrow> sys \<Rightarrow> sys" where
  "emit ev e s = s\<lparr>trace := trace s @ [ev], glob := tick e (length (trace s)) (glob s)\<rparr>"

text \<open>An assignment to the globals.\<close>

definition assign :: "(globals \<Rightarrow> globals) \<Rightarrow> sys \<Rightarrow> sys" where
  "assign f s = s\<lparr>glob := f (glob s)\<rparr>"

text \<open>A call of a \<^verbatim>\<open>void\<close> function of the environment: the program stops when the function
  never returns.\<close>

definition call :: "event \<Rightarrow> (globals \<Rightarrow> globals option) \<Rightarrow> env \<Rightarrow> sys \<Rightarrow> sys" where
  "call ev f e s =
     (case f (glob s) of
        None \<Rightarrow> (emit ev e s)\<lparr>halted := True\<rparr>
      | Some gl \<Rightarrow> emit ev e (s\<lparr>glob := gl\<rparr>))"

text \<open>Statements in sequence: nothing runs after the program has stopped.\<close>

fun run :: "(sys \<Rightarrow> sys) list \<Rightarrow> sys \<Rightarrow> sys" where
  "run [] s = s"
| "run (f # fs) s = (if halted s then s else run fs (f s))"

text \<open>\<^verbatim>\<open>if (lowPowerSeen == true) powerDown();\<close>\<close>

definition checkpoint :: "env \<Rightarrow> sys \<Rightarrow> sys" where
  "checkpoint e s =
     (let b = lowPowerSeen (glob s); s1 = emit (Poll b) e s
      in if b = True then call Ev_powerDown (powerDown e) e s1 else s1)"

subsection \<open>The watchdog interrupt handler\<close>

text \<open>\<^verbatim>\<open>am_watchdog_isr\<close>; the argument is what \<^verbatim>\<open>digitalRead(PIN_POWER_LOSS)\<close> returns in
  this invocation. \<^verbatim>\<open>Ev_wdt_restart\<close> is \<^verbatim>\<open>am_hal_wdt_restart()\<close>, the pet.\<close>

definition am_watchdog_isr :: "level \<Rightarrow> sys \<Rightarrow> sys" where
  "am_watchdog_isr pin s =
     (let s1 = s\<lparr>trace := trace s @ [Ev_wdt_int_clear]\<rparr>
      in if (g_wakeOnPowerReconnect (glob s1) = False) \<or> (waitingForReset (glob s1) = False)
            \<or> (pin = LOW)
         then s1\<lparr>trace := trace s1 @ [Ev_wdt_restart]\<rparr>
         else s1)"

text \<open>The handler pets when its invocation adds a restart of the watchdog to the trace.\<close>

definition pets :: "level \<Rightarrow> sys \<Rightarrow> bool" where
  "pets pin s = (Ev_wdt_restart \<in> set (drop (length (trace s)) (trace (am_watchdog_isr pin s))))"

subsection \<open>The card and the log file (SdFat, as the sketch uses it)\<close>

text \<open>\<^verbatim>\<open>sd.begin(SD_CONFIG)\<close> and \<^verbatim>\<open>sd.chdir()\<close>: the environment decides.\<close>

definition sd_begin :: "env \<Rightarrow> sys \<Rightarrow> bool \<times> sys" where
  "sd_begin e s = (let r = sdBeginOk e (length (trace s)) in (r, emit (Ev_sd_begin r) e s))"

definition sd_chdir :: "env \<Rightarrow> sys \<Rightarrow> bool \<times> sys" where
  "sd_chdir e s = (let r = sdChdirOk e (length (trace s)) in (r, emit (Ev_sd_chdir r) e s))"

definition new_file :: fs_file where
  "new_file = \<lparr>bytes = [], t_create = None, t_access = None, t_write = None\<rparr>"

text \<open>What \<^verbatim>\<open>open\<close> does to the card: a missing file is created empty, an existing file keeps
  its bytes unless \<^verbatim>\<open>O_TRUNC\<close> is among the flags.\<close>

definition open_file :: "string \<Rightarrow> oflag set \<Rightarrow> globals \<Rightarrow> globals" where
  "open_file name flags gl =
     gl\<lparr>sd := (case sd gl name of
                  None \<Rightarrow> (sd gl)(name \<mapsto> new_file)
                | Some f \<Rightarrow> (sd gl)(name \<mapsto> (if O_TRUNC \<in> flags then f\<lparr>bytes := []\<rparr> else f))),
        gnssDataFile := Some (name, flags)\<rparr>"

text \<open>\<^verbatim>\<open>gnssDataFile.open(name, flags)\<close>: it fails when the environment says so, and when the
  file does not exist and \<^verbatim>\<open>O_CREAT\<close> is not given.\<close>

definition sd_open :: "string \<Rightarrow> oflag set \<Rightarrow> env \<Rightarrow> sys \<Rightarrow> bool \<times> sys" where
  "sd_open name flags e s =
     (let ok = (fileOpenOk e (length (trace s)) \<and> (sd (glob s) name \<noteq> None \<or> O_CREAT \<in> flags));
          s1 = emit (Ev_open name flags ok) e s
      in if ok then (True, assign (open_file name flags) s1) else (False, s1))"

definition stamp :: "tflag set \<Rightarrow> datetime \<Rightarrow> fs_file \<Rightarrow> fs_file" where
  "stamp fl dt f =
     f\<lparr>t_create := (if T_CREATE \<in> fl then Some dt else t_create f),
       t_access := (if T_ACCESS \<in> fl then Some dt else t_access f),
       t_write := (if T_WRITE \<in> fl then Some dt else t_write f)\<rparr>"

text \<open>The file behind the handle, when the handle is open and the file is on the card.\<close>

definition open_target :: "globals \<Rightarrow> (string \<times> fs_file) option" where
  "open_target gl =
     (case gnssDataFile gl of
        None \<Rightarrow> None
      | Some (name, fl) \<Rightarrow> (case sd gl name of None \<Rightarrow> None | Some f \<Rightarrow> Some (name, f)))"

text \<open>\<^verbatim>\<open>gnssDataFile.timestamp(flags, year, month, day, hour, minute, second)\<close>: it fails on a
  closed handle and when the environment says so.\<close>

definition file_timestamp :: "tflag set \<Rightarrow> datetime \<Rightarrow> env \<Rightarrow> sys \<Rightarrow> bool \<times> sys" where
  "file_timestamp fl dt e s =
     (case open_target (glob s) of
        None \<Rightarrow> (False, emit (Ev_timestamp fl dt False) e s)
      | Some (name, f) \<Rightarrow>
          (let ok = timestampOk e (length (trace s)); s1 = emit (Ev_timestamp fl dt ok) e s
           in if ok then (True, assign (\<lambda>gl. gl\<lparr>sd := (sd gl)(name \<mapsto> stamp fl dt f)\<rparr>) s1)
              else (False, s1)))"

text \<open>\<^verbatim>\<open>myRTC.getTime()\<close> copies the hardware calendar into \<^verbatim>\<open>myRTC\<close>.\<close>

definition rtc_getTime :: "env \<Rightarrow> sys \<Rightarrow> sys" where
  "rtc_getTime e s = emit Ev_getTime e (assign (\<lambda>gl. gl\<lparr>myRTC := rtcClock e (length (trace s))\<rparr>) s)"

text \<open>The arguments \<^verbatim>\<open>(myRTC.year + 2000), myRTC.month, myRTC.dayOfMonth, myRTC.hour,
  myRTC.minute, myRTC.seconds\<close>, narrowed to the \<^verbatim>\<open>uint16_t\<close> year and the \<^verbatim>\<open>uint8_t\<close> others
  of \<^verbatim>\<open>timestamp\<close>.\<close>

definition rtc_datetime :: "rtc_time \<Rightarrow> datetime" where
  "rtc_datetime t =
     ((year t + 2000) mod 65536, month t mod 256, dayOfMonth t mod 256,
      hour t mod 256, minute t mod 256, seconds t mod 256)"

definition show_bool :: "bool \<Rightarrow> string" where
  "show_bool b = (if b then ''1'' else ''0'')"

subsection \<open>Time stamps of the log file\<close>

definition updateDataFileCreate :: "env \<Rightarrow> sys \<Rightarrow> sys" where
  "updateDataFileCreate e s =
     (if rtcHasBeenSyncd (glob s) = True then
        (let s1 = rtc_getTime e s;
             (result, s2) = file_timestamp {T_CREATE} (rtc_datetime (myRTC (glob s1))) e s1
         in if printMinorDebugMessages (settings (glob s2)) = True
            then run [emit (Print ''updateDataFileCreate: gnssDataFile.timestamp T_CREATE returned '') e,
                      emit (Print (show_bool result)) e] s2
            else s2)
      else s)"

definition updateDataFileAccess :: "env \<Rightarrow> sys \<Rightarrow> sys" where
  "updateDataFileAccess e s =
     (if rtcHasBeenSyncd (glob s) = True then
        (let s1 = rtc_getTime e s;
             (result, s2) = file_timestamp {T_ACCESS} (rtc_datetime (myRTC (glob s1))) e s1;
             s3 = (if printMinorDebugMessages (settings (glob s2)) = True
                   then run [emit (Print ''updateDataFileAccess: gnssDataFile.timestamp T_ACCESS returned '') e,
                             emit (Print (show_bool result)) e] s2
                   else s2);
             (result2, s4) = file_timestamp {T_WRITE} (rtc_datetime (myRTC (glob s3))) e s3
         in if printMinorDebugMessages (settings (glob s4)) = True
            then run [emit (Print ''updateDataFileAccess: gnssDataFile.timestamp T_WRITE returned '') e,
                      emit (Print (show_bool result2)) e] s4
            else s4)
      else s)"

definition updateDataFileWrite :: "env \<Rightarrow> sys \<Rightarrow> sys" where
  "updateDataFileWrite e s =
     (if rtcHasBeenSyncd (glob s) = True then
        (let s1 = rtc_getTime e s;
             (result, s2) = file_timestamp {T_WRITE} (rtc_datetime (myRTC (glob s1))) e s1
         in if printMinorDebugMessages (settings (glob s2)) = True
            then run [emit (Print ''updateDataFileAccess: gnssDataFile.timestamp T_WRITE returned '') e,
                      emit (Print (show_bool result)) e] s2
            else s2)
      else s)"

subsection \<open>Bringing up the card and the log file\<close>

text \<open>\<^verbatim>\<open>for (int i = 0; i < n; i++) { if (lowPowerSeen == true) powerDown(); delay(1); }\<close>\<close>

fun pollDelay :: "nat \<Rightarrow> env \<Rightarrow> sys \<Rightarrow> sys" where
  "pollDelay 0 e s = s"
| "pollDelay (Suc n) e s = pollDelay n e (run [checkpoint e, emit (Delay 1) e] s)"

text \<open>The end of \<^verbatim>\<open>beginSD\<close>, reached when one of the two \<^verbatim>\<open>sd.begin\<close> succeeded.\<close>

definition beginSD_chdir :: "env \<Rightarrow> sys \<Rightarrow> sys" where
  "beginSD_chdir e s =
     (let (r, s1) = sd_chdir e s
      in if r = False
         then run [emit (Print ''SD change directory failed'') e,
                   assign (\<lambda>gl. gl\<lparr>online_microSD := False\<rparr>)] s1
         else assign (\<lambda>gl. gl\<lparr>online_microSD := True\<rparr>) s1)"

definition beginSD_retry :: "env \<Rightarrow> sys \<Rightarrow> sys" where
  "beginSD_retry e s =
     (let (r2, s2) = sd_begin e s
      in if r2 = False
         then run [emit (Print ''SD init failed. Is card present? Formatted?'') e,
                   emit (Call ''digitalWrite(PIN_MICROSD_CHIP_SELECT, HIGH)'') e,
                   assign (\<lambda>gl. gl\<lparr>online_microSD := False\<rparr>)] s2
         else beginSD_chdir e s2)"

definition beginSD_begin :: "env \<Rightarrow> sys \<Rightarrow> sys" where
  "beginSD_begin e s =
     (let (r1, s1) = sd_begin e s
      in if r1 = False then run [pollDelay 250 e, beginSD_retry e] s1
         else beginSD_chdir e s1)"

definition beginSD :: "env \<Rightarrow> sys \<Rightarrow> sys" where
  "beginSD e =
     run [emit (Call ''pinMode(PIN_MICROSD_POWER, OUTPUT)'') e,
          emit (Call ''pinMode(PIN_MICROSD_CHIP_SELECT, OUTPUT)'') e,
          emit (Call ''digitalWrite(PIN_MICROSD_CHIP_SELECT, HIGH)'') e,
          (\<lambda>s. if enableSD (settings (glob s)) = True
                then run [emit (Call ''microSDPowerOn()'') e, pollDelay 10 e, beginSD_begin e] s
                else run [emit (Call ''microSDPowerOff()'') e,
                          assign (\<lambda>gl. gl\<lparr>online_microSD := False\<rparr>)] s)]"

text \<open>\<^verbatim>\<open>strcpy(gnssDataFileName, findNextAvailableLog(settings.nextDataLogNumber, "dataLog"))\<close>.
  The destination is \<^verbatim>\<open>char gnssDataFileName[30]\<close>: a name of up to 29 characters fits with its
  terminating zero. With a longer name \<^verbatim>\<open>strcpy\<close> writes past the end of the array; the
  behaviour of the program is undefined from there on, and the run ends at that event.\<close>

definition allocateLogName :: "env \<Rightarrow> sys \<Rightarrow> sys" where
  "allocateLogName e s =
     (let (name, gl) = findNextAvailableLog e (nextDataLogNumber (settings (glob s))) ''dataLog'' (glob s);
          s1 = emit Ev_findNextAvailableLog e (s\<lparr>glob := gl\<rparr>)
      in if length name < 30 then assign (\<lambda>gl. gl\<lparr>gnssDataFileName := name\<rparr>) s1
         else (emit Ev_strcpy_overrun e s1)\<lparr>halted := True\<rparr>)"

text \<open>The two parts of the guarded block of \<^verbatim>\<open>beginDataLogging\<close>:
  \<^verbatim>\<open>if ((strlen(gnssDataFileName) == 0) || (settings.openNewLogFile == true)) strcpy(...)\<close>,
  and the open with what follows it.\<close>

definition logNameStep :: "env \<Rightarrow> sys \<Rightarrow> sys" where
  "logNameStep e s =
     (if length (gnssDataFileName (glob s)) = 0 \<or> openNewLogFile (settings (glob s)) = True
      then allocateLogName e s else s)"

definition openLogFile :: "env \<Rightarrow> sys \<Rightarrow> sys" where
  "openLogFile e s =
     (let (r, s2) = sd_open (gnssDataFileName (glob s)) {O_CREAT, O_APPEND, O_WRITE} e s
      in if r = False
         then run [emit (Print ''Failed to create sensor data file'') e,
                   assign (\<lambda>gl. gl\<lparr>online_dataLogging := False\<rparr>)] s2
         else run [updateDataFileCreate e,
                   assign (\<lambda>gl. gl\<lparr>online_dataLogging := True\<rparr>)] s2)"

definition beginDataLogging :: "env \<Rightarrow> sys \<Rightarrow> sys" where
  "beginDataLogging e s =
     (if online_microSD (glob s) = True \<and> logData (settings (glob s)) = True
      then run [logNameStep e, openLogFile e] s
      else assign (\<lambda>gl. gl\<lparr>online_dataLogging := False\<rparr>) s)"

subsection \<open>setup\<close>

text \<open>\<^verbatim>\<open>startWatchdog\<close>: the four calls into the HAL that are not commented out.\<close>

definition startWatchdog :: "env \<Rightarrow> sys \<Rightarrow> sys" where
  "startWatchdog e =
     run [emit (Call ''am_hal_clkgen_control(AM_HAL_CLKGEN_CONTROL_LFRC_START, 0)'') e,
          emit (Call ''am_hal_wdt_init(&g_sWatchdogConfig)'') e,
          emit (Call ''NVIC_EnableIRQ(WDT_IRQn)'') e,
          emit (Call ''am_hal_wdt_start()'') e]"

text \<open>\<^verbatim>\<open>attachInterrupt(digitalPinToInterrupt(PIN_POWER_LOSS), lowPowerISR, FALLING)\<close>\<close>

definition attachLowPowerInterrupt :: "env \<Rightarrow> sys \<Rightarrow> sys" where
  "attachLowPowerInterrupt e s =
     emit (Call ''attachInterrupt(digitalPinToInterrupt(PIN_POWER_LOSS), lowPowerISR, FALLING)'') e
       (assign (\<lambda>gl. gl\<lparr>lowPowerIntAttached := True\<rparr>) s)"

text \<open>\<^verbatim>\<open>if (digitalRead(PIN_POWER_LOSS) == LOW) powerDown();\<close>, the guard against a falling
  edge missed before the interrupt was attached.\<close>

definition startupGuard :: "env \<Rightarrow> sys \<Rightarrow> sys" where
  "startupGuard e s =
     (let l = pinPowerLoss e (length (trace s)); s1 = emit (GuardRead l) e s
      in if l = LOW then call Ev_powerDown (powerDown e) e s1 else s1)"

text \<open>\<^verbatim>\<open>const byte PIN_LOGIC_DEBUG = -1\<close>: a byte, so the value is 255.\<close>

definition PIN_LOGIC_DEBUG :: byte where
  "PIN_LOGIC_DEBUG = - 1"

definition beginQwiic :: "env \<Rightarrow> sys \<Rightarrow> sys" where
  "beginQwiic e =
     run [emit (Call ''pinMode(PIN_QWIIC_POWER, OUTPUT)'') e,
          emit (Call ''qwiicPowerOn()'') e,
          emit (Call ''qwiic.begin()'') e]"

definition disableIMU :: "env \<Rightarrow> sys \<Rightarrow> sys" where
  "disableIMU e =
     run [emit (Call ''pinMode(PIN_IMU_POWER, OUTPUT)'') e,
          emit (Call ''pinMode(PIN_IMU_CHIP_SELECT, OUTPUT)'') e,
          emit (Call ''digitalWrite(PIN_IMU_CHIP_SELECT, HIGH)'') e,
          emit (Call ''imuPowerOff()'') e]"

text \<open>\<^verbatim>\<open>if (beginSensors() == true) Serial.println(beginSensorOutput); else
  Serial.println("No sensors detected");\<close>\<close>

definition callBeginSensors :: "env \<Rightarrow> sys \<Rightarrow> sys" where
  "callBeginSensors e s =
     (case beginSensors e (glob s) of
        None \<Rightarrow> (emit Ev_beginSensors e s)\<lparr>halted := True\<rparr>
      | Some (r, gl) \<Rightarrow>
          (let s1 = emit Ev_beginSensors e (s\<lparr>glob := gl\<rparr>)
           in if r = True then emit (PrintString (beginSensorOutput (glob s1))) e s1
              else emit (Print ''No sensors detected'') e s1))"

definition setup_ola :: "env \<Rightarrow> sys \<Rightarrow> sys" where
  "setup_ola e =
     run [emit (Call ''pinMode(PIN_POWER_LOSS, INPUT)'') e,
          emit (Delay 1) e,
          attachLowPowerInterrupt e,
          startWatchdog e,
          emit (Call ''powerLEDOn()'') e,
          emit (Call ''pinMode(PIN_STAT_LED, OUTPUT)'') e,
          emit (Call ''digitalWrite(PIN_STAT_LED, HIGH)'') e,
          startupGuard e,
          (\<lambda>s. if 0 \<le> PIN_LOGIC_DEBUG
                then run [emit (Call ''pinMode(PIN_LOGIC_DEBUG, OUTPUT)'') e,
                          emit (Call ''digitalWrite(PIN_LOGIC_DEBUG, HIGH)'') e] s
                else s),
          emit (Call ''Serial.begin(115200)'') e,
          emit (Print []) e,
          emit (Call ''SPI.begin()'') e,
          beginSD e,
          checkpoint e,
          call Ev_loadSettings (loadSettings e) e,
          checkpoint e,
          emit (Call ''Serial.flush()'') e,
          emit (Call ''Serial.begin(settings.serialTerminalBaudRate)'') e,
          emit (Print ''Artemis OpenLog GNSS v1.1'') e,
          checkpoint e,
          beginQwiic e,
          checkpoint e,
          emit (Call ''analogReadResolution(14)'') e,
          beginDataLogging e,
          checkpoint e,
          disableIMU e,
          checkpoint e,
          (\<lambda>s. if online_microSD (glob s) = True then emit (Print ''SD card online'') e s
                else emit (Print ''SD card offline'') e s),
          (\<lambda>s. if online_dataLogging (glob s) = True then emit (Print ''Data logging online'') e s
                else emit (Print ''Datalogging offline'') e s),
          (\<lambda>s. if enableTerminalOutput (settings (glob s)) = False \<and> logData (settings (glob s)) = True
                then emit (Print ''Logging to microSD card with no terminal output'') e s
                else s),
          callBeginSensors e,
          (\<lambda>s. assign (\<lambda>gl. gl\<lparr>measurementStartTime := rtcMillis e (length (trace s))\<rparr>) s),
          checkpoint e,
          emit (Call ''digitalWrite(PIN_STAT_LED, LOW)'') e]"

subsection \<open>loop\<close>

text \<open>The condition of the \<^verbatim>\<open>if\<close> in \<^verbatim>\<open>loop\<close>:
  \<^verbatim>\<open>(settings.usSleepDuration > 0) && (timeNow > (measurementStartTime +
  (settings.usLoggingDuration / 1000ULL)))\<close>, in 64-bit unsigned arithmetic.\<close>

definition timeToSleep :: "uint64_t \<Rightarrow> globals \<Rightarrow> bool" where
  "timeToSleep timeNow gl =
     (usSleepDuration (settings gl) > 0 \<and>
      timeNow > measurementStartTime gl + usLoggingDuration (settings gl) div 1000)"

text \<open>\<^verbatim>\<open>measurementStartTime = measurementStartTime + (settings.usLoggingDuration / 1000ULL)
  + (settings.usSleepDuration / 1000ULL);\<close>\<close>

definition advanceMeasurementStartTime :: "globals \<Rightarrow> globals" where
  "advanceMeasurementStartTime gl =
     gl\<lparr>measurementStartTime :=
          measurementStartTime gl + usLoggingDuration (settings gl) div 1000
            + usSleepDuration (settings gl) div 1000\<rparr>"

text \<open>The body of \<^verbatim>\<open>loop\<close> from \<^verbatim>\<open>uint64_t timeNow = rtcMillis();\<close> on.\<close>

definition sleepIfDue :: "env \<Rightarrow> sys \<Rightarrow> sys" where
  "sleepIfDue e s =
     (let timeNow = rtcMillis e (length (trace s))
      in if timeToSleep timeNow (glob s)
         then run [(\<lambda>s. if printMajorDebugMessages (settings (glob s)) = True
                         then emit (Print ''Going to sleep...'') e s else s),
                   call Ev_goToSleep (goToSleep e) e,
                   assign advanceMeasurementStartTime,
                   assign (\<lambda>gl. gl\<lparr>rtcNeedsSync := True\<rparr>)] s
         else s)"

definition loop :: "env \<Rightarrow> sys \<Rightarrow> sys" where
  "loop e =
     run [checkpoint e,
          (\<lambda>s. if serialAvailable e (length (trace s)) then call Ev_menuMain (menuMain e) e s else s),
          call Ev_storeData (storeData e) e,
          checkpoint e,
          sleepIfDue e]"

subsection \<open>menuPower\<close>

text \<open>\<^verbatim>\<open>x ^= 1\<close> on a \<^verbatim>\<open>bool\<close>: the operand is promoted to an integer, xor-ed with 1 and
  converted back.\<close>

definition xor1 :: "bool \<Rightarrow> bool" where
  "xor1 b = (((of_bool b :: int) XOR 1) \<noteq> 0)"

text \<open>The menu text. \<^verbatim>\<open>hw\<close> is \<^verbatim>\<open>HARDWARE_VERSION_MAJOR\<close>, which the sketch defines as 0.\<close>

definition menuPower_print :: "nat \<Rightarrow> env \<Rightarrow> sys \<Rightarrow> sys" where
  "menuPower_print hw e =
     run ([emit (Print []) e,
           emit (Print ''Menu: Configure Power Options'') e,
           emit (Print ''1) Wake On Power Reconnect: '') e,
           (\<lambda>s. if wakeOnPowerReconnect (settings (glob s)) = True then emit (Print ''Enabled'') e s
                 else emit (Print ''Disabled'') e s)]
          @ (if hw \<ge> 1
             then [emit (Print ''2) Turn off Qwiic bus power when sleeping: '') e,
                   (\<lambda>s. if powerDownQwiicBusBetweenReads (settings (glob s)) = True
                         then emit (Print ''Yes'') e s else emit (Print ''No'') e s),
                   emit (Print ''3) Power LED During Sleep: '') e,
                   (\<lambda>s. if enablePwrLedDuringSleep (settings (glob s)) = True
                         then emit (Print ''Enabled'') e s else emit (Print ''Disabled'') e s)]
             else [])
          @ [emit (Print ''x) Exit'') e])"

text \<open>\<^verbatim>\<open>menuPower\<close>. The list is what the successive calls of \<^verbatim>\<open>getByteChoice(menuTimeout)\<close>
  return; when it is used up nothing more is typed and the call returns
  \<^verbatim>\<open>STATUS_GETBYTE_TIMEOUT\<close>. \<^verbatim>\<open>printUnknown\<close> is not among the sources and is taken to print
  only.\<close>

definition toggle_wakeOnPowerReconnect :: "globals \<Rightarrow> globals" where
  "toggle_wakeOnPowerReconnect gl =
     gl\<lparr>settings := (settings gl)\<lparr>wakeOnPowerReconnect := xor1 (wakeOnPowerReconnect (settings gl))\<rparr>\<rparr>"

definition toggle_powerDownQwiicBusBetweenReads :: "globals \<Rightarrow> globals" where
  "toggle_powerDownQwiicBusBetweenReads gl =
     gl\<lparr>settings := (settings gl)\<lparr>powerDownQwiicBusBetweenReads :=
                        xor1 (powerDownQwiicBusBetweenReads (settings gl))\<rparr>\<rparr>"

definition toggle_enablePwrLedDuringSleep :: "globals \<Rightarrow> globals" where
  "toggle_enablePwrLedDuringSleep gl =
     gl\<lparr>settings := (settings gl)\<lparr>enablePwrLedDuringSleep :=
                        xor1 (enablePwrLedDuringSleep (settings gl))\<rparr>\<rparr>"

fun menuPower :: "nat \<Rightarrow> env \<Rightarrow> byte list \<Rightarrow> sys \<Rightarrow> sys" where
  "menuPower hw e [] s = menuPower_print hw e s"
| "menuPower hw e (incoming # pending) s =
     (let s1 = menuPower_print hw e s
      in if incoming = 0x31 then menuPower hw e pending (assign toggle_wakeOnPowerReconnect s1)
         else if hw \<ge> 1 \<and> incoming = 0x32
           then menuPower hw e pending (assign toggle_powerDownQwiicBusBetweenReads s1)
         else if hw \<ge> 1 \<and> incoming = 0x33
           then menuPower hw e pending (assign toggle_enablePwrLedDuringSleep s1)
         else if incoming = 0x78 then s1
         else if incoming = STATUS_GETBYTE_TIMEOUT then s1
         else menuPower hw e pending (emit (Print ''printUnknown'') e s1))"

subsection \<open>The decision to sleep, as an observation of the trace\<close>

text \<open>The scheduler decides to sleep when this pass through the end of \<^verbatim>\<open>loop\<close> calls
  \<^verbatim>\<open>goToSleep\<close>.\<close>

definition sleeps :: "env \<Rightarrow> sys \<Rightarrow> bool" where
  "sleeps e s = (Ev_goToSleep \<in> set (drop (length (trace s)) (trace (sleepIfDue e s))))"

subsection \<open>Power loss, as an observation of the trace\<close>

text \<open>An event that observes the loss of power: a checkpoint that finds \<^verbatim>\<open>lowPowerSeen\<close> set,
  or the start-up guard reading the line LOW.\<close>

definition observesPowerLoss :: "event \<Rightarrow> bool" where
  "observesPowerLoss ev = (ev = Poll True \<or> ev = GuardRead LOW)"

text \<open>In a list of events, every observation of the loss of power is followed at once by the
  call of \<^verbatim>\<open>powerDown\<close>.\<close>

fun powersDownAtOnce :: "event list \<Rightarrow> bool" where
  "powersDownAtOnce [] = True"
| "powersDownAtOnce [ev] = (\<not> observesPowerLoss ev)"
| "powersDownAtOnce (ev # ev' # evs) =
     ((if observesPowerLoss ev then ev' = Ev_powerDown else True) \<and> powersDownAtOnce (ev' # evs))"

text \<open>The events that a run from \<^verbatim>\<open>s\<close> to \<^verbatim>\<open>s'\<close> has added.\<close>

definition newEvents :: "sys \<Rightarrow> sys \<Rightarrow> event list" where
  "newEvents s s' = drop (length (trace s)) (trace s')"

text \<open>\<^verbatim>\<open>powerDown\<close> is terminal: it never returns to its caller.\<close>

definition neverReturns :: "env \<Rightarrow> bool" where
  "neverReturns e = (\<forall>gl. powerDown e gl = None)"

text \<open>The call of \<^verbatim>\<open>powerDown\<close> is the last event, and the only one of its kind.\<close>

definition powerDownLast :: "event list \<Rightarrow> bool" where
  "powerDownLast evs = (evs \<noteq> [] \<and> last evs = Ev_powerDown \<and> Ev_powerDown \<notin> set (butlast evs))"

text \<open>The calls of functions of the environment that may never return: \<^verbatim>\<open>powerDown\<close> and the
  functions of the repository that are parameters.\<close>

definition isCall :: "event \<Rightarrow> bool" where
  "isCall ev = (ev = Ev_powerDown \<or> ev = Ev_loadSettings \<or> ev = Ev_beginSensors \<or> ev = Ev_menuMain
                \<or> ev = Ev_storeData \<or> ev = Ev_goToSleep)"

text \<open>The events at which a run can end: such a call, or a \<^verbatim>\<open>strcpy\<close> past the buffer.\<close>

definition stopsAt :: "event \<Rightarrow> bool" where
  "stopsAt ev = (isCall ev \<or> ev = Ev_strcpy_overrun)"

text \<open>What one step of the program may add to the trace, and the steps that respect it.\<close>

definition stepOK :: "env \<Rightarrow> sys \<Rightarrow> sys \<Rightarrow> event list \<Rightarrow> bool" where
  "stepOK e s s' evs =
     (trace s' = trace s @ evs \<and> powersDownAtOnce evs
      \<and> (neverReturns e \<and> Ev_powerDown \<in> set evs \<longrightarrow> halted s' \<and> powerDownLast evs)
      \<and> (halted s' \<longrightarrow> evs \<noteq> [] \<and> stopsAt (last evs)))"

definition guardedStep :: "env \<Rightarrow> (sys \<Rightarrow> sys) \<Rightarrow> bool" where
  "guardedStep e f = (\<forall>s. \<not> halted s \<longrightarrow> (\<exists>evs. stepOK e s (f s) evs))"

definition haltFree :: "(sys \<Rightarrow> sys) \<Rightarrow> bool" where
  "haltFree f = (\<forall>s. halted (f s) = halted s)"

text \<open>Events that neither observe the loss of power nor power down.\<close>

definition quiet :: "event \<Rightarrow> bool" where
  "quiet ev = (\<not> observesPowerLoss ev \<and> ev \<noteq> Ev_powerDown)"

text \<open>A step that adds only events of a given kind to the trace.\<close>

definition emitsOnly :: "(event \<Rightarrow> bool) \<Rightarrow> (sys \<Rightarrow> sys) \<Rightarrow> bool" where
  "emitsOnly Q f = (\<forall>s. \<exists>evs. trace (f s) = trace s @ evs \<and> list_all Q evs)"

subsection \<open>The checkpoints, as an observation of the trace\<close>

text \<open>The work that a checkpoint stands in front of: in \<^verbatim>\<open>setup\<close> the first event of
  \<^verbatim>\<open>loadSettings\<close>, of the serial port set-up, of \<^verbatim>\<open>beginQwiic\<close>, of the phase of
  \<^verbatim>\<open>beginDataLogging\<close>, of \<^verbatim>\<open>disableIMU\<close>, of the report with \<^verbatim>\<open>beginSensors\<close> and of the last
  statement; in the wait loops of \<^verbatim>\<open>beginSD\<close> the \<^verbatim>\<open>delay(1)\<close>; in \<^verbatim>\<open>loop\<close> the menu,
  \<^verbatim>\<open>storeData\<close>, the message before the sleep and \<^verbatim>\<open>goToSleep\<close>.\<close>

definition phaseStart :: "event \<Rightarrow> bool" where
  "phaseStart ev =
     (ev = Ev_loadSettings \<or> ev = Call ''Serial.flush()''
      \<or> ev = Call ''pinMode(PIN_QWIIC_POWER, OUTPUT)'' \<or> ev = Call ''analogReadResolution(14)''
      \<or> ev = Call ''pinMode(PIN_IMU_POWER, OUTPUT)''
      \<or> ev = Print ''SD card online'' \<or> ev = Print ''SD card offline''
      \<or> ev = Call ''digitalWrite(PIN_STAT_LED, LOW)'' \<or> ev = Delay 1
      \<or> ev = Ev_menuMain \<or> ev = Ev_storeData \<or> ev = Print ''Going to sleep...''
      \<or> ev = Ev_goToSleep)"

definition plainEvent :: "event \<Rightarrow> bool" where
  "plainEvent ev = (\<not> phaseStart ev)"

text \<open>The event \<^verbatim>\<open>prev\<close> stands directly before \<^verbatim>\<open>ev\<close>, and \<^verbatim>\<open>ev\<close> runs behind a checkpoint: the
  event before it is the poll that found \<^verbatim>\<open>lowPowerSeen\<close> clear (or a \<^verbatim>\<open>powerDown\<close> that has
  returned), or \<^verbatim>\<open>ev\<close> is \<^verbatim>\<open>storeData\<close> right after the menu, or \<^verbatim>\<open>goToSleep\<close> right after its
  message, which are themselves behind the checkpoint.\<close>

definition clearBefore :: "event \<Rightarrow> event \<Rightarrow> bool" where
  "clearBefore prev ev =
     (prev = Poll False \<or> prev = Ev_powerDown
      \<or> (prev = Ev_menuMain \<and> ev = Ev_storeData)
      \<or> (prev = Print ''Going to sleep...'' \<and> ev = Ev_goToSleep))"

text \<open>In a list of events, every such work, the first event of the list apart, runs directly
  behind a checkpoint.\<close>

fun polledBefore :: "event list \<Rightarrow> bool" where
  "polledBefore [] = True"
| "polledBefore [ev] = True"
| "polledBefore (prev # ev # evs) =
     ((if phaseStart ev then clearBefore prev ev else True) \<and> polledBefore (ev # evs))"

text \<open>The trace from position \<^verbatim>\<open>n\<close> on is of that kind, and the steps that keep it so: any
  step, and a step that may only follow a checkpoint.\<close>

definition polledFrom :: "nat \<Rightarrow> sys \<Rightarrow> bool" where
  "polledFrom n s = (n \<le> length (trace s) \<and> polledBefore (drop n (trace s)))"

definition keepsStep :: "(sys \<Rightarrow> sys) \<Rightarrow> bool" where
  "keepsStep f = (\<forall>n s. polledFrom n s \<longrightarrow> polledFrom n (f s))"

definition afterPoll :: "sys \<Rightarrow> bool" where
  "afterPoll s = (trace s \<noteq> [] \<and> (last (trace s) = Poll False \<or> last (trace s) = Ev_powerDown))"

definition opensPhase :: "(sys \<Rightarrow> sys) \<Rightarrow> bool" where
  "opensPhase f = (\<forall>n s. polledFrom n s \<and> afterPoll s \<longrightarrow> polledFrom n (f s))"

text \<open>The events of \<^verbatim>\<open>k\<close> rounds of a wait loop in which the flag stays clear.\<close>

definition clearRounds :: "nat \<Rightarrow> event list" where
  "clearRounds k = concat (replicate k [Poll False, Delay 1])"

subsection \<open>Opening the log file, as an observation of the trace\<close>

text \<open>\<^verbatim>\<open>beginDataLogging\<close> allocates a file name when its run calls
  \<^verbatim>\<open>findNextAvailableLog\<close>.\<close>

definition allocates :: "env \<Rightarrow> sys \<Rightarrow> bool" where
  "allocates e s = (Ev_findNextAvailableLog \<in> set (newEvents s (beginDataLogging e s)))"

text \<open>Every file of the card is still there with the bytes it had.\<close>

definition bytesIntact :: "globals \<Rightarrow> globals \<Rightarrow> bool" where
  "bytesIntact gl gl' =
     (\<forall>name f. sd gl name = Some f \<longrightarrow> (\<exists>f'. sd gl' name = Some f' \<and> bytes f' = bytes f))"

text \<open>\<^verbatim>\<open>O_CREAT | O_APPEND | O_WRITE\<close>\<close>

definition appendCreate :: "oflag set" where
  "appendCreate = {O_CREAT, O_APPEND, O_WRITE}"

text \<open>The calls of \<^verbatim>\<open>open\<close> in a list of events: name, flags and result.\<close>

fun openCalls :: "event list \<Rightarrow> (string \<times> oflag set \<times> bool) list" where
  "openCalls [] = []"
| "openCalls (Ev_open name fl ok # evs) = (name, fl, ok) # openCalls evs"
| "openCalls (ev # evs) = openCalls evs"

text \<open>Modelled from the spec: \<^verbatim>\<open>findNextAvailableLog\<close> is not among the sources. The spec says
  that the next unused file name in sequence is allocated by scanning the existing files, and
  that the path has at most 30 bytes: called with the globals \<^verbatim>\<open>gl\<close>, it returns a name that
  fits the buffer and that no file of the card has, and it leaves the files of the card with
  their bytes.\<close>

definition nextUnused :: "env \<Rightarrow> globals \<Rightarrow> bool" where
  "nextUnused e gl =
     (let (name, gl') = findNextAvailableLog e (nextDataLogNumber (settings gl)) ''dataLog'' gl
      in length name < 30 \<and> sd gl' name = None \<and> bytesIntact gl gl')"

text \<open>The name that \<^verbatim>\<open>findNextAvailableLog\<close> returns in this state fits the buffer.\<close>

definition nameFits :: "env \<Rightarrow> sys \<Rightarrow> bool" where
  "nameFits e s =
     (length (fst (findNextAvailableLog e (nextDataLogNumber (settings (glob s))) ''dataLog'' (glob s))) < 30)"

text \<open>The state after the open of \<^verbatim>\<open>beginDataLogging\<close>.\<close>

definition openStep :: "env \<Rightarrow> sys \<Rightarrow> sys" where
  "openStep e s =
     snd (sd_open (gnssDataFileName (glob (logNameStep e s))) appendCreate e (logNameStep e s))"

text \<open>An environment without loss of power in which \<^verbatim>\<open>loadSettings\<close> and \<^verbatim>\<open>beginSensors\<close>
  return and the names of \<^verbatim>\<open>findNextAvailableLog\<close> fit the buffer, and a state that has seen no
  loss of power.\<close>

definition returnsQuietly :: "env \<Rightarrow> bool" where
  "returnsQuietly e =
     ((\<forall>n. \<not> lowPowerIRQ e n) \<and> (\<forall>n. pinPowerLoss e n = HIGH)
      \<and> (\<forall>gl. \<exists>gl'. loadSettings e gl = Some gl' \<and> lowPowerSeen gl' = lowPowerSeen gl)
      \<and> (\<forall>gl. \<exists>r gl'. beginSensors e gl = Some (r, gl') \<and> lowPowerSeen gl' = lowPowerSeen gl
              \<and> online_dataLogging gl' = online_dataLogging gl)
      \<and> (\<forall>n p gl. lowPowerSeen (snd (findNextAvailableLog e n p gl)) = lowPowerSeen gl
              \<and> length (fst (findNextAvailableLog e n p gl)) < 30))"

definition quietState :: "sys \<Rightarrow> bool" where
  "quietState s = (\<not> halted s \<and> \<not> lowPowerSeen (glob s))"

subsection \<open>A board and an environment for the examples\<close>

definition settings0 :: struct_settings where
  "settings0 =
     \<lparr>nextDataLogNumber = 1, usLoggingDuration = 10000000, usSleepDuration = 5000000,
      openNewLogFile = True, enableSD = False, logData = True, enableTerminalOutput = True,
      printMajorDebugMessages = False, printMinorDebugMessages = False,
      wakeOnPowerReconnect = True, powerDownQwiicBusBetweenReads = True,
      enablePwrLedDuringSleep = True\<rparr>"

text \<open>The globals with the initial values the sketch gives them.\<close>

definition globals0 :: globals where
  "globals0 =
     \<lparr>settings = settings0, online_microSD = False, online_dataLogging = False,
      sd = Map.empty, gnssDataFile = None, gnssDataFileName = [], beginSensorOutput = [],
      myRTC = \<lparr>year = 0, month = 0, dayOfMonth = 0, hour = 0, minute = 0, seconds = 0\<rparr>,
      measurementStartTime = 0, rtcHasBeenSyncd = False, rtcNeedsSync = True,
      g_wakeOnPowerReconnect = True, lowPowerSeen = False, waitingForReset = False,
      lowPowerIntAttached = False\<rparr>"

definition sys0 :: sys where
  "sys0 = \<lparr>glob = globals0, trace = [], halted = False\<rparr>"

text \<open>A quiet environment: power stays on, the card and the clock work, every function of the
  repository that is a parameter returns at once, and \<^verbatim>\<open>powerDown\<close> never returns.\<close>

definition env0 :: env where
  "env0 =
     \<lparr>pinPowerLoss = (\<lambda>n. HIGH), lowPowerIRQ = (\<lambda>n. False), serialAvailable = (\<lambda>n. False),
      sdBeginOk = (\<lambda>n. True), sdChdirOk = (\<lambda>n. True), fileOpenOk = (\<lambda>n. True),
      timestampOk = (\<lambda>n. True),
      rtcClock = (\<lambda>n. \<lparr>year = 26, month = 11, dayOfMonth = 2, hour = 10, minute = 21, seconds = 0\<rparr>),
      rtcMillis = (\<lambda>n. 10001),
      powerDown = (\<lambda>gl. None), loadSettings = Some,
      beginSensors = (\<lambda>gl. Some (True, gl)), menuMain = Some, storeData = Some,
      goToSleep = Some,
      findNextAvailableLog = (\<lambda>n p gl. (''dataLog00001.ubx'', gl))\<rparr>"

text \<open>A board that is logging: the card holds one log file, the handle is open on it and the
  clock has been synchronised.\<close>

definition logfile1 :: fs_file where
  "logfile1 = \<lparr>bytes = [0xB5, 0x62], t_create = None, t_access = None, t_write = None\<rparr>"

definition globals1 :: globals where
  "globals1 =
     globals0\<lparr>online_microSD := True, online_dataLogging := True,
              sd := [''dataLog00001.ubx'' \<mapsto> logfile1],
              gnssDataFile := Some (''dataLog00001.ubx'', {O_CREAT, O_APPEND, O_WRITE}),
              gnssDataFileName := ''dataLog00001.ubx'', rtcHasBeenSyncd := True\<rparr>"

definition sys1 :: sys where
  "sys1 = \<lparr>glob = globals1, trace = [], halted = False\<rparr>"

text \<open>Environments with a loss of power: the line is LOW at boot and no interrupt arrives; the
  falling edge arrives while \<^verbatim>\<open>loadSettings\<close> runs (event 21 of \<^verbatim>\<open>setup\<close>); it arrives while
  \<^verbatim>\<open>storeData\<close> runs (event 1 of \<^verbatim>\<open>loop\<close>). In the last environment \<^verbatim>\<open>goToSleep\<close> clears
  \<^verbatim>\<open>rtcNeedsSync\<close> before it returns.\<close>

definition env_missed :: env where
  "env_missed = env0\<lparr>pinPowerLoss := (\<lambda>n. LOW)\<rparr>"

definition env_irq :: env where
  "env_irq = env0\<lparr>lowPowerIRQ := (\<lambda>n. n = 21)\<rparr>"

definition env_irq1 :: env where
  "env_irq1 = env0\<lparr>lowPowerIRQ := (\<lambda>n. n = 1), rtcMillis := (\<lambda>n. 0)\<rparr>"

definition sys_attached :: sys where
  "sys_attached = sys0\<lparr>glob := globals0\<lparr>lowPowerIntAttached := True\<rparr>\<rparr>"

definition env_sleepy :: env where
  "env_sleepy = env0\<lparr>goToSleep := (\<lambda>gl. Some (gl\<lparr>rtcNeedsSync := False\<rparr>))\<rparr>"

text \<open>The board after a wake-up (handle closed, one log file on the card), with and without
  \<^verbatim>\<open>openNewLogFile\<close>; environments whose next free name is the second log, where every open
  fails, and where the card does not answer; a board with the card enabled, and one that has
  seen the loss of power.\<close>

definition env_next :: env where
  "env_next = env0\<lparr>findNextAvailableLog := (\<lambda>n p gl. (''dataLog00002.ubx'', gl))\<rparr>"

definition sys_woken :: sys where
  "sys_woken = \<lparr>glob = globals1\<lparr>gnssDataFile := None\<rparr>, trace = [], halted = False\<rparr>"

definition sys_reuse :: sys where
  "sys_reuse =
     \<lparr>glob = globals1\<lparr>gnssDataFile := None, settings := settings0\<lparr>openNewLogFile := False\<rparr>\<rparr>,
      trace = [], halted = False\<rparr>"

definition env_nocard :: env where
  "env_nocard = env0\<lparr>sdBeginOk := (\<lambda>n. False)\<rparr>"

definition sys_sd :: sys where
  "sys_sd = sys0\<lparr>glob := globals0\<lparr>settings := settings0\<lparr>enableSD := True\<rparr>\<rparr>\<rparr>"

definition env_nofile :: env where
  "env_nofile = env_next\<lparr>fileOpenOk := (\<lambda>n. False)\<rparr>"

definition sys_lost :: sys where
  "sys_lost = sys0\<lparr>glob := globals0\<lparr>settings := settings0\<lparr>enableSD := True\<rparr>, lowPowerSeen := True\<rparr>\<rparr>"

section \<open>Properties\<close>

subsection \<open>Basic facts about events, assignments and calls\<close>

lemma xor1_not [simp]: "xor1 b = (\<not> b)"
  by (cases b) (simp_all add: xor1_def)

lemma glob_tick_simps [simp]:
  "settings (tick e n gl) = settings gl"
  "online_microSD (tick e n gl) = online_microSD gl"
  "online_dataLogging (tick e n gl) = online_dataLogging gl"
  "sd (tick e n gl) = sd gl"
  "gnssDataFile (tick e n gl) = gnssDataFile gl"
  "gnssDataFileName (tick e n gl) = gnssDataFileName gl"
  "myRTC (tick e n gl) = myRTC gl"
  "measurementStartTime (tick e n gl) = measurementStartTime gl"
  "rtcHasBeenSyncd (tick e n gl) = rtcHasBeenSyncd gl"
  "rtcNeedsSync (tick e n gl) = rtcNeedsSync gl"
  "g_wakeOnPowerReconnect (tick e n gl) = g_wakeOnPowerReconnect gl"
  "waitingForReset (tick e n gl) = waitingForReset gl"
  "lowPowerIntAttached (tick e n gl) = lowPowerIntAttached gl"
  by (simp_all add: tick_def lowPowerISR_def)

lemma emit_simps [simp]:
  "trace (emit ev e s) = trace s @ [ev]"
  "halted (emit ev e s) = halted s"
  "glob (emit ev e s) = tick e (length (trace s)) (glob s)"
  by (simp_all add: emit_def)

lemma assign_simps [simp]:
  "trace (assign f s) = trace s"
  "halted (assign f s) = halted s"
  "glob (assign f s) = f (glob s)"
  by (simp_all add: assign_def)

lemma call_simps [simp]:
  "trace (call ev f e s) = trace s @ [ev]"
  "halted (call ev f e s) = (halted s \<or> f (glob s) = None)"
  by (simp_all add: call_def emit_def split: option.splits)

lemma call_returns:
  assumes "f (glob s) = Some gl"
  shows "glob (call ev f e s) = tick e (length (trace s)) gl"
    and "halted (call ev f e s) = halted s"
  using assms by (simp_all add: call_def emit_def)

lemma run_halted [simp]: "halted s \<Longrightarrow> run fs s = s"
  by (cases fs) simp_all

lemma run_invariant:
  assumes "\<And>f s. f \<in> set fs \<Longrightarrow> I s \<Longrightarrow> I (f s)" and "I s"
  shows "I (run fs s)"
  using assms by (induction fs arbitrary: s) auto

subsection \<open>The watchdog\<close>

text \<open>C1 (as the code has it). On each watchdog interrupt the handler pets the watchdog
  unless all three hold: the volatile copy of the wake-on-power-reconnect flag is set, the
  waiting-for-reset flag is set, and the power-loss line reads HIGH, that is, power is
  present again. While power is absent (LOW) it always pets.\<close>

theorem C1_watchdog_pet_rule:
  "pets pin s =
     (\<not> (g_wakeOnPowerReconnect (glob s) \<and> waitingForReset (glob s) \<and> \<not> powerAbsent pin))"
  by (cases pin) (auto simp add: pets_def am_watchdog_isr_def powerAbsent_def Let_def)

text \<open>C1 as stated fails: with both flags set and the line LOW (power still absent) the
  handler pets, and with the line HIGH (power restored) it does not.\<close>

theorem C1_counterexample:
  "g_wakeOnPowerReconnect (glob (sys0\<lparr>glob := globals0\<lparr>waitingForReset := True\<rparr>\<rparr>))
   \<and> waitingForReset (glob (sys0\<lparr>glob := globals0\<lparr>waitingForReset := True\<rparr>\<rparr>))
   \<and> powerAbsent LOW \<and> pets LOW (sys0\<lparr>glob := globals0\<lparr>waitingForReset := True\<rparr>\<rparr>)
   \<and> \<not> powerAbsent HIGH \<and> \<not> pets HIGH (sys0\<lparr>glob := globals0\<lparr>waitingForReset := True\<rparr>\<rparr>)"
  by (simp add: pets_def am_watchdog_isr_def powerAbsent_def sys0_def globals0_def Let_def)

subsection \<open>The duty cycle\<close>

lemma sleepIfDue_trace:
  "\<not> halted s \<Longrightarrow> trace (sleepIfDue e s) =
     trace s @ (if timeToSleep (rtcMillis e (length (trace s))) (glob s)
                then (if printMajorDebugMessages (settings (glob s)) then [Print ''Going to sleep...''] else [])
                     @ [Ev_goToSleep]
                else [])"
  by (simp add: sleepIfDue_def Let_def)

lemma sleepIfDue_idle: "\<not> timeToSleep (rtcMillis e (length (trace s))) (glob s) \<Longrightarrow> sleepIfDue e s = s"
  by (simp add: sleepIfDue_def)

lemma sleepIfDue_due:
  "\<not> halted s \<Longrightarrow> timeToSleep (rtcMillis e (length (trace s))) (glob s) \<Longrightarrow>
   sleepIfDue e s =
     run [call Ev_goToSleep (goToSleep e) e, assign advanceMeasurementStartTime,
          assign (\<lambda>gl. gl\<lparr>rtcNeedsSync := True\<rparr>)]
       (if printMajorDebugMessages (settings (glob s)) then emit (Print ''Going to sleep...'') e s else s)"
  by (simp add: sleepIfDue_def)

lemma timeToSleep_nat:
  "unat (measurementStartTime gl) + unat (usLoggingDuration (settings gl)) div 1000 < 2 ^ 64 \<Longrightarrow>
   timeToSleep now gl =
     (0 < unat (usSleepDuration (settings gl)) \<and>
      unat (measurementStartTime gl) + unat (usLoggingDuration (settings gl)) div 1000 < unat now)"
  by (simp add: timeToSleep_def word_less_nat_alt unat_word_ariths unat_div)

text \<open>C2. With the program running, the end of \<^verbatim>\<open>loop\<close> decides to sleep exactly when
  the sleep duration \<^verbatim>\<open>settings.usSleepDuration\<close> is greater than 0 and the current time
  \<^verbatim>\<open>rtcMillis()\<close> is strictly greater than \<^verbatim>\<open>measurementStartTime\<close> plus the logging duration
  in milliseconds (\<^verbatim>\<open>settings.usLoggingDuration / 1000\<close>); the sum and the comparison are those of
  \<^verbatim>\<open>uint64_t\<close>, and they are the ones of the natural numbers as long as the sum does not exceed
  64 bits. With a sleep duration of 0 the decision is never taken and the state is left as it
  is.\<close>

theorem C2_sleep_decision:
  "\<not> halted s \<longrightarrow>
     (sleeps e s =
        (0 < usSleepDuration (settings (glob s)) \<and>
         measurementStartTime (glob s) + usLoggingDuration (settings (glob s)) div 1000
           < rtcMillis e (length (trace s))))
     \<and> (usSleepDuration (settings (glob s)) = 0 \<longrightarrow> \<not> sleeps e s \<and> sleepIfDue e s = s)
     \<and> (unat (measurementStartTime (glob s)) + unat (usLoggingDuration (settings (glob s))) div 1000 < 2 ^ 64 \<longrightarrow>
          sleeps e s =
            (0 < unat (usSleepDuration (settings (glob s))) \<and>
             unat (measurementStartTime (glob s)) + unat (usLoggingDuration (settings (glob s))) div 1000
               < unat (rtcMillis e (length (trace s)))))"
proof -
  have "sleeps e s = timeToSleep (rtcMillis e (length (trace s))) (glob s)" if "\<not> halted s"
    using that by (simp add: sleeps_def sleepIfDue_trace)
  moreover have "sleepIfDue e s = s" if "usSleepDuration (settings (glob s)) = 0"
    using that by (simp add: sleepIfDue_idle timeToSleep_def)
  ultimately show ?thesis
    using timeToSleep_nat [of "glob s" "rtcMillis e (length (trace s))"]
    by (auto simp add: timeToSleep_def)
qed

theorem C2_witness:
  "\<not> halted sys0 \<and> sleeps env0 sys0
   \<and> unat (measurementStartTime (glob sys0)) + unat (usLoggingDuration (settings (glob sys0))) div 1000 < 2 ^ 64
   \<and> \<not> halted (sys0\<lparr>glob := globals0\<lparr>settings := settings0\<lparr>usSleepDuration := 0\<rparr>\<rparr>\<rparr>)
   \<and> usSleepDuration (settings (glob (sys0\<lparr>glob := globals0\<lparr>settings := settings0\<lparr>usSleepDuration := 0\<rparr>\<rparr>\<rparr>))) = 0
   \<and> \<not> sleeps env0 (sys0\<lparr>glob := globals0\<lparr>settings := settings0\<lparr>usSleepDuration := 0\<rparr>\<rparr>\<rparr>)"
  using C2_sleep_decision [of sys0 env0]
    C2_sleep_decision [of "sys0\<lparr>glob := globals0\<lparr>settings := settings0\<lparr>usSleepDuration := 0\<rparr>\<rparr>\<rparr>" env0]
  by (simp add: sys0_def globals0_def settings0_def env0_def)

lemma sleep_and_advance:
  assumes ret: "\<And>gl. \<exists>gl'. goToSleep e gl = Some gl' \<and> measurementStartTime gl' = measurementStartTime gl
                 \<and> settings gl' = settings gl"
    and "\<not> halted s1"
  shows "measurementStartTime (glob (run [call Ev_goToSleep (goToSleep e) e,
                   assign advanceMeasurementStartTime,
                   assign (\<lambda>gl. gl\<lparr>rtcNeedsSync := True\<rparr>)] s1)) =
           measurementStartTime (glob s1) + usLoggingDuration (settings (glob s1)) div 1000
             + usSleepDuration (settings (glob s1)) div 1000"
proof -
  from ret obtain gl' where gl': "goToSleep e (glob s1) = Some gl'"
    "measurementStartTime gl' = measurementStartTime (glob s1)" "settings gl' = settings (glob s1)"
    by blast
  show ?thesis
    using assms(2) gl' by (simp add: call_returns advanceMeasurementStartTime_def)
qed

text \<open>C3. When the sleep is due and \<^verbatim>\<open>goToSleep\<close> returns, leaving \<^verbatim>\<open>measurementStartTime\<close> and
  the settings as they were, one pass through the end of \<^verbatim>\<open>loop\<close> sets
  \<^verbatim>\<open>measurementStartTime\<close> to its old value plus the logging duration in milliseconds plus the
  sleep duration in milliseconds: one full cycle, whatever the time \<^verbatim>\<open>rtcMillis()\<close> at which the
  sleep was entered. With 10000 ms, 5000 ms and an old value of 0 the new value is 15000, not
  10001 (the witness).\<close>

theorem C3_window_advance:
  assumes run: "\<not> halted s"
    and due: "timeToSleep (rtcMillis e (length (trace s))) (glob s)"
    and ret: "\<And>gl. \<exists>gl'. goToSleep e gl = Some gl' \<and> measurementStartTime gl' = measurementStartTime gl
                 \<and> settings gl' = settings gl"
  shows "measurementStartTime (glob (sleepIfDue e s)) =
           measurementStartTime (glob s) + usLoggingDuration (settings (glob s)) div 1000
             + usSleepDuration (settings (glob s)) div 1000"
proof (cases "printMajorDebugMessages (settings (glob s))")
  case True
  then show ?thesis
    using sleep_and_advance [OF ret, of "emit (Print ''Going to sleep...'') e s"] run due
    by (simp add: sleepIfDue_due)
next
  case False
  then show ?thesis
    using sleep_and_advance [OF ret, of s] run due by (simp add: sleepIfDue_due)
qed

theorem C3_witness:
  "\<not> halted sys0 \<and> timeToSleep (rtcMillis env0 (length (trace sys0))) (glob sys0)
   \<and> rtcMillis env0 (length (trace sys0)) = 10001
   \<and> usLoggingDuration (settings (glob sys0)) div 1000 = 10000
   \<and> usSleepDuration (settings (glob sys0)) div 1000 = 5000
   \<and> measurementStartTime (glob sys0) = 0
   \<and> measurementStartTime (glob (sleepIfDue env0 sys0)) = 15000"
proof -
  have ret: "\<exists>gl'. goToSleep env0 gl = Some gl' \<and> measurementStartTime gl' = measurementStartTime gl
                 \<and> settings gl' = settings gl" for gl
    by (simp add: env0_def)
  have run: "\<not> halted sys0" by (simp add: sys0_def)
  have due: "timeToSleep (rtcMillis env0 (length (trace sys0))) (glob sys0)"
    by (simp add: timeToSleep_def sys0_def globals0_def settings0_def env0_def)
  show ?thesis
    using C3_window_advance [OF run due ret] due
    by (simp add: sys0_def globals0_def settings0_def env0_def)
qed

subsection \<open>Time stamps of the log file\<close>

lemma prints_keep_sd [simp]:
  "sd (glob (run [emit a e, emit b e] s)) = sd (glob s)"
  by simp

lemma file_timestamp_closed:
  "open_target (glob s) = None \<Longrightarrow> sd (glob (snd (file_timestamp fl dt e s))) = sd (glob s)"
  by (simp add: file_timestamp_def)

lemma file_timestamp_ok:
  "open_target (glob s) = Some (name, f) \<Longrightarrow> timestampOk e (length (trace s)) \<Longrightarrow>
   file_timestamp fl dt e s =
     (True, assign (\<lambda>gl. gl\<lparr>sd := (sd gl)(name \<mapsto> stamp fl dt f)\<rparr>) (emit (Ev_timestamp fl dt True) e s))"
  by (simp add: file_timestamp_def)

lemma open_target_cong:
  "gnssDataFile gl' = gnssDataFile gl \<Longrightarrow> sd gl' = sd gl \<Longrightarrow> open_target gl' = open_target gl"
  by (simp add: open_target_def split: option.splits)

lemma open_target_getTime [simp]: "open_target (glob (rtc_getTime e s)) = open_target (glob s)"
  by (rule open_target_cong) (simp_all add: rtc_getTime_def)

lemma getTime_simps [simp]:
  "trace (rtc_getTime e s) = trace s @ [Ev_getTime]"
  "myRTC (glob (rtc_getTime e s)) = rtcClock e (length (trace s))"
  "settings (glob (rtc_getTime e s)) = settings (glob s)"
  "sd (glob (rtc_getTime e s)) = sd (glob s)"
  "halted (rtc_getTime e s) = halted s"
  by (simp_all add: rtc_getTime_def)

lemma updateDataFileCreate_stamps:
  assumes "rtcHasBeenSyncd (glob s)" "open_target (glob s) = Some (name, f)" "\<forall>n. timestampOk e n"
  shows "sd (glob (updateDataFileCreate e s)) name =
           Some (f\<lparr>t_create := Some (rtc_datetime (rtcClock e (length (trace s))))\<rparr>)"
  using assms
  by (simp add: updateDataFileCreate_def Let_def file_timestamp_ok stamp_def)

lemma updateDataFileWrite_stamps:
  assumes "rtcHasBeenSyncd (glob s)" "open_target (glob s) = Some (name, f)" "\<forall>n. timestampOk e n"
  shows "sd (glob (updateDataFileWrite e s)) name =
           Some (f\<lparr>t_write := Some (rtc_datetime (rtcClock e (length (trace s))))\<rparr>)"
  using assms
  by (simp add: updateDataFileWrite_def Let_def file_timestamp_ok stamp_def)

lemma open_target_update:
  "open_target gl = Some (name, f) \<Longrightarrow>
   open_target (gl\<lparr>sd := (sd gl)(name \<mapsto> f')\<rparr>) = Some (name, f')"
  by (auto simp add: open_target_def split: option.splits)

lemma open_target_tick [simp]: "open_target (tick e n gl) = open_target gl"
  by (rule open_target_cong) simp_all

lemma open_target_emit [simp]: "open_target (glob (emit ev e s)) = open_target (glob s)"
  by (rule open_target_cong) simp_all

lemma open_target_prints [simp]:
  "open_target (glob (run [emit a e, emit b e] s)) = open_target (glob s)"
  by (rule open_target_cong) simp_all

lemma prints_keep_rtc [simp]:
  "myRTC (glob (run [emit a e, emit b e] s)) = myRTC (glob s)"
  by simp

lemma file_timestamp_ok':
  assumes "open_target (glob s) = Some (name, f)" "\<forall>n. timestampOk e n"
  shows "open_target (glob (snd (file_timestamp fl dt e s))) = Some (name, stamp fl dt f)"
    and "myRTC (glob (snd (file_timestamp fl dt e s))) = myRTC (glob s)"
    and "settings (glob (snd (file_timestamp fl dt e s))) = settings (glob s)"
    and "sd (glob (snd (file_timestamp fl dt e s))) name = Some (stamp fl dt f)"
  using assms open_target_update [of "tick e (length (trace s)) (glob s)" name f "stamp fl dt f"]
    open_target_emit [of "Ev_timestamp fl dt True" e s]
  by (simp_all add: file_timestamp_ok del: open_target_emit)

lemma file_timestamp_frame [simp]:
  "myRTC (glob (snd (file_timestamp fl dt e s))) = myRTC (glob s)"
  "settings (glob (snd (file_timestamp fl dt e s))) = settings (glob s)"
  "halted (snd (file_timestamp fl dt e s)) = halted s"
  "trace (snd (file_timestamp fl dt e s)) =
     trace s @ [Ev_timestamp fl dt (fst (file_timestamp fl dt e s))]"
  by (simp_all add: file_timestamp_def Let_def split: option.splits prod.splits)

lemma updateDataFileAccess_stamps:
  assumes "rtcHasBeenSyncd (glob s)" "open_target (glob s) = Some (name, f)" "\<forall>n. timestampOk e n"
  shows "sd (glob (updateDataFileAccess e s)) name =
           Some (f\<lparr>t_access := Some (rtc_datetime (rtcClock e (length (trace s)))),
                   t_write := Some (rtc_datetime (rtcClock e (length (trace s))))\<rparr>)"
proof -
  define dt where "dt = rtc_datetime (rtcClock e (length (trace s)))"
  define s2 where "s2 = snd (file_timestamp {T_ACCESS} dt e (rtc_getTime e s))"
  have s2: "open_target (glob s2) = Some (name, stamp {T_ACCESS} dt f)" "myRTC (glob s2) = rtcClock e (length (trace s))"
    using file_timestamp_ok' [of "rtc_getTime e s" name f e "{T_ACCESS}" dt] assms
    by (simp_all add: s2_def)
  define s3 where "s3 = (if printMinorDebugMessages (settings (glob s2))
                   then run [emit (Print ''updateDataFileAccess: gnssDataFile.timestamp T_ACCESS returned '') e,
                             emit (Print (show_bool (fst (file_timestamp {T_ACCESS} dt e (rtc_getTime e s))))) e] s2
                   else s2)"
  have s3: "open_target (glob s3) = Some (name, stamp {T_ACCESS} dt f)" "myRTC (glob s3) = rtcClock e (length (trace s))"
    using s2 by (simp_all add: s3_def)
  define s4 where "s4 = snd (file_timestamp {T_WRITE} dt e s3)"
  have s4: "sd (glob s4) name = Some (stamp {T_WRITE} dt (stamp {T_ACCESS} dt f))"
    using file_timestamp_ok' [of s3 name "stamp {T_ACCESS} dt f" e "{T_WRITE}" dt] s3 assms
    by (simp add: s4_def)
  have "sd (glob (updateDataFileAccess e s)) = sd (glob s4)"
    using assms(1) s3
    by (simp add: updateDataFileAccess_def Let_def split_beta s4_def s3_def s2_def dt_def)
  then show ?thesis
    using s4 by (simp add: stamp_def dt_def)
qed

text \<open>C5. Each of \<^verbatim>\<open>updateDataFileCreate\<close>, \<^verbatim>\<open>updateDataFileAccess\<close> and
  \<^verbatim>\<open>updateDataFileWrite\<close> does nothing at all while \<^verbatim>\<open>rtcHasBeenSyncd\<close> is false: no call of
  \<^verbatim>\<open>timestamp\<close>, the files and the whole state as before. When the flag is true, the handle is
  open and \<^verbatim>\<open>timestamp\<close> succeeds, the file carries the time of the clock: as creation time,
  as access and write time, and as write time.\<close>

theorem C5_timestamps_gated_by_sync:
  "(rtcHasBeenSyncd (glob s) = False \<longrightarrow>
      updateDataFileCreate e s = s \<and> updateDataFileAccess e s = s \<and> updateDataFileWrite e s = s)
   \<and> (rtcHasBeenSyncd (glob s) = True \<and> open_target (glob s) = Some (name, f) \<and> (\<forall>n. timestampOk e n) \<longrightarrow>
      sd (glob (updateDataFileCreate e s)) name =
        Some (f\<lparr>t_create := Some (rtc_datetime (rtcClock e (length (trace s))))\<rparr>)
      \<and> sd (glob (updateDataFileAccess e s)) name =
        Some (f\<lparr>t_access := Some (rtc_datetime (rtcClock e (length (trace s)))),
                t_write := Some (rtc_datetime (rtcClock e (length (trace s))))\<rparr>)
      \<and> sd (glob (updateDataFileWrite e s)) name =
        Some (f\<lparr>t_write := Some (rtc_datetime (rtcClock e (length (trace s))))\<rparr>))"
proof -
  have "updateDataFileCreate e s = s \<and> updateDataFileAccess e s = s \<and> updateDataFileWrite e s = s"
    if "rtcHasBeenSyncd (glob s) = False"
    using that
    by (simp add: updateDataFileCreate_def updateDataFileAccess_def updateDataFileWrite_def)
  then show ?thesis
    using updateDataFileCreate_stamps [of s name f e] updateDataFileAccess_stamps [of s name f e]
      updateDataFileWrite_stamps [of s name f e]
    by blast
qed

theorem C5_witness:
  "rtcHasBeenSyncd (glob sys0) = False
   \<and> updateDataFileCreate env0 sys0 = sys0 \<and> updateDataFileAccess env0 sys0 = sys0
   \<and> updateDataFileWrite env0 sys0 = sys0
   \<and> rtcHasBeenSyncd (glob sys1) = True
   \<and> open_target (glob sys1) = Some (''dataLog00001.ubx'', logfile1)
   \<and> sd (glob (updateDataFileCreate env0 sys1)) ''dataLog00001.ubx'' =
        Some (logfile1\<lparr>t_create := Some (2026, 11, 2, 10, 21, 0)\<rparr>)
   \<and> sd (glob (updateDataFileAccess env0 sys1)) ''dataLog00001.ubx'' =
        Some (logfile1\<lparr>t_access := Some (2026, 11, 2, 10, 21, 0), t_write := Some (2026, 11, 2, 10, 21, 0)\<rparr>)
   \<and> sd (glob (updateDataFileWrite env0 sys1)) ''dataLog00001.ubx'' =
        Some (logfile1\<lparr>t_write := Some (2026, 11, 2, 10, 21, 0)\<rparr>)"
proof -
  have a: "rtcHasBeenSyncd (glob sys0) = False"
    by (simp add: sys0_def globals0_def)
  have b: "rtcHasBeenSyncd (glob sys1) = True \<and> open_target (glob sys1) = Some (''dataLog00001.ubx'', logfile1)
      \<and> (\<forall>n. timestampOk env0 n)"
    by (simp add: sys1_def globals1_def globals0_def open_target_def env0_def)
  have c: "rtc_datetime (rtcClock env0 (length (trace sys1))) = (2026, 11, 2, 10, 21, 0)"
    by (simp add: rtc_datetime_def env0_def)
  show ?thesis
    using C5_timestamps_gated_by_sync [where s = sys0 and e = env0] a
      C5_timestamps_gated_by_sync
        [where s = sys1 and e = env0 and name = "''dataLog00001.ubx''" and f = logfile1] b c
    by simp
qed

subsection \<open>The power menu\<close>

lemma menuPower_print_keeps:
  "settings (glob (menuPower_print hw e s)) = settings (glob s)
   \<and> g_wakeOnPowerReconnect (glob (menuPower_print hw e s)) = g_wakeOnPowerReconnect (glob s)"
  unfolding menuPower_print_def
  by (rule run_invariant
        [where I = "\<lambda>s'. settings (glob s') = settings (glob s)
                        \<and> g_wakeOnPowerReconnect (glob s') = g_wakeOnPowerReconnect (glob s)"])
     (auto split: if_splits)

lemma menuPower_print_frame [simp]:
  "settings (glob (menuPower_print hw e s)) = settings (glob s)"
  "g_wakeOnPowerReconnect (glob (menuPower_print hw e s)) = g_wakeOnPowerReconnect (glob s)"
  using menuPower_print_keeps [of hw e s] by simp_all

lemma menuPower_volatile [simp]:
  "g_wakeOnPowerReconnect (glob (menuPower hw e cs s)) = g_wakeOnPowerReconnect (glob s)"
  by (induction cs arbitrary: s)
     (simp_all add: Let_def toggle_wakeOnPowerReconnect_def toggle_powerDownQwiicBusBetweenReads_def
        toggle_enablePwrLedDuringSleep_def)

lemma menuPower_settings_cong:
  "settings (glob s) = settings (glob s') \<Longrightarrow>
   settings (glob (menuPower hw e cs s)) = settings (glob (menuPower hw e cs s'))"
proof (induction cs arbitrary: s s')
  case Nil
  then show ?case by simp
next
  case (Cons c cs)
  have "settings (glob (menuPower hw e cs (assign f (menuPower_print hw e s)))) =
        settings (glob (menuPower hw e cs (assign f (menuPower_print hw e s'))))"
    if "\<And>gl gl'. settings gl = settings gl' \<Longrightarrow> settings (f gl) = settings (f gl')" for f
  proof (rule Cons.IH)
    have "settings (glob (menuPower_print hw e s)) = settings (glob (menuPower_print hw e s'))"
      using Cons.prems by simp
    then have "settings (f (glob (menuPower_print hw e s))) = settings (f (glob (menuPower_print hw e s')))"
      by (rule that)
    then show "settings (glob (assign f (menuPower_print hw e s))) =
               settings (glob (assign f (menuPower_print hw e s')))"
      by simp
  qed
  moreover have "settings (glob (menuPower hw e cs (emit ev e (menuPower_print hw e s)))) =
        settings (glob (menuPower hw e cs (emit ev e (menuPower_print hw e s'))))" for ev
    using Cons.prems by (intro Cons.IH) simp
  ultimately show ?case
    using Cons.prems
    by (simp add: Let_def toggle_wakeOnPowerReconnect_def toggle_powerDownQwiicBusBetweenReads_def
        toggle_enablePwrLedDuringSleep_def)
qed

text \<open>C9. In \<^verbatim>\<open>menuPower\<close> the input \<^verbatim>\<open>'1'\<close> (0x31) toggles
  \<^verbatim>\<open>settings.wakeOnPowerReconnect\<close> and nothing else of the settings, so two of them in a row
  give the settings back; \<^verbatim>\<open>'x'\<close> (0x78), the time-out value and a time-out leave the loop with
  the settings as they are at that point; any input without a branch of its own changes no
  field of the settings.\<close>

theorem C9_menuPower_settings:
  "settings (glob (menuPower hw e [0x31] s)) =
     (settings (glob s))\<lparr>wakeOnPowerReconnect := \<not> wakeOnPowerReconnect (settings (glob s))\<rparr>
   \<and> settings (glob (menuPower hw e (0x31 # 0x31 # cs) s)) = settings (glob (menuPower hw e cs s))
   \<and> settings (glob (menuPower hw e (0x78 # cs) s)) = settings (glob s)
   \<and> settings (glob (menuPower hw e (STATUS_GETBYTE_TIMEOUT # cs) s)) = settings (glob s)
   \<and> settings (glob (menuPower hw e [] s)) = settings (glob s)
   \<and> (c \<notin> {0x31, 0x78, STATUS_GETBYTE_TIMEOUT} \<and> (hw = 0 \<or> c \<notin> {0x32, 0x33}) \<longrightarrow>
        settings (glob (menuPower hw e (c # cs) s)) = settings (glob (menuPower hw e cs s)))"
proof -
  have twice: "settings (glob (menuPower hw e (0x31 # 0x31 # cs) s)) = settings (glob (menuPower hw e cs s))"
    by (simp add: Let_def, rule menuPower_settings_cong) (simp add: toggle_wakeOnPowerReconnect_def)
  have other: "settings (glob (menuPower hw e (c # cs) s)) = settings (glob (menuPower hw e cs s))"
    if "c \<notin> {0x31, 0x78, STATUS_GETBYTE_TIMEOUT}" "hw = 0 \<or> c \<notin> {0x32, 0x33}"
    using that by (auto simp add: Let_def intro!: menuPower_settings_cong)
  show ?thesis
    using twice other
    by (simp add: Let_def toggle_wakeOnPowerReconnect_def STATUS_GETBYTE_TIMEOUT_def)
qed

theorem C9_witness:
  "(0x32 :: byte) \<notin> {0x31, 0x78, STATUS_GETBYTE_TIMEOUT} \<and> (0 :: nat) = 0
   \<and> settings (glob (menuPower 0 env0 [0x32, 0x31, 0x78] sys0)) = settings (glob (menuPower 0 env0 [0x31, 0x78] sys0))
   \<and> wakeOnPowerReconnect (settings (glob (menuPower 0 env0 [0x31] sys0))) = False
   \<and> settings (glob (menuPower 0 env0 [0x31, 0x31] sys0)) = settings0"
  using C9_menuPower_settings [where hw = 0 and e = env0 and s = sys0 and c = "0x32" and cs = "[0x31, 0x78]"]
    C9_menuPower_settings [where hw = 0 and e = env0 and s = sys0 and cs = "[]"]
  by (simp add: STATUS_GETBYTE_TIMEOUT_def sys0_def globals0_def settings0_def)

lemma menuPower_print_waiting [simp]:
  "waitingForReset (glob (menuPower_print hw e s)) = waitingForReset (glob s)"
  unfolding menuPower_print_def
  by (rule run_invariant [where I = "\<lambda>s'. waitingForReset (glob s') = waitingForReset (glob s)"])
     (auto split: if_splits)

lemma menuPower_waiting [simp]:
  "waitingForReset (glob (menuPower hw e cs s)) = waitingForReset (glob s)"
  by (induction cs arbitrary: s)
     (simp_all add: Let_def toggle_wakeOnPowerReconnect_def toggle_powerDownQwiicBusBetweenReads_def
        toggle_enablePwrLedDuringSleep_def)

lemma pets_iff:
  "pets pin s = (\<not> (g_wakeOnPowerReconnect (glob s) \<and> waitingForReset (glob s) \<and> pin = HIGH))"
  by (cases pin) (auto simp add: pets_def am_watchdog_isr_def Let_def)

text \<open>C10. No statement of \<^verbatim>\<open>menuPower\<close> writes the volatile global
  \<^verbatim>\<open>wakeOnPowerReconnect\<close>: whatever is typed, it keeps its value, and so does the decision of
  the watchdog handler, which reads that copy. Option 1 changes
  \<^verbatim>\<open>settings.wakeOnPowerReconnect\<close>, so when the two agreed before the toggle they disagree
  when the menu is left.\<close>

theorem C10_menuPower_volatile_copy:
  "g_wakeOnPowerReconnect (glob (menuPower hw e cs s)) = g_wakeOnPowerReconnect (glob s)
   \<and> pets pin (menuPower hw e cs s) = pets pin s
   \<and> wakeOnPowerReconnect (settings (glob (menuPower hw e (0x31 # 0x78 # cs) s))) =
       (\<not> wakeOnPowerReconnect (settings (glob s)))
   \<and> (g_wakeOnPowerReconnect (glob s) = wakeOnPowerReconnect (settings (glob s)) \<longrightarrow>
        g_wakeOnPowerReconnect (glob (menuPower hw e (0x31 # 0x78 # cs) s)) \<noteq>
        wakeOnPowerReconnect (settings (glob (menuPower hw e (0x31 # 0x78 # cs) s))))"
proof -
  have "wakeOnPowerReconnect (settings (glob (menuPower hw e (0x31 # 0x78 # cs) s))) =
       (\<not> wakeOnPowerReconnect (settings (glob s)))"
    by (simp add: Let_def toggle_wakeOnPowerReconnect_def)
  then show ?thesis
    by (simp add: pets_iff Let_def toggle_wakeOnPowerReconnect_def)
qed

theorem C10_witness:
  "g_wakeOnPowerReconnect (glob sys0) = wakeOnPowerReconnect (settings (glob sys0))
   \<and> g_wakeOnPowerReconnect (glob (menuPower 0 env0 [0x31, 0x78] sys0)) = True
   \<and> wakeOnPowerReconnect (settings (glob (menuPower 0 env0 [0x31, 0x78] sys0))) = False"
  using C10_menuPower_volatile_copy [where hw = 0 and e = env0 and s = sys0 and cs = "[]"]
  by (simp add: sys0_def globals0_def settings0_def)

subsection \<open>Checkpoints\<close>

lemma run_append: "run (fs @ gs) s = run gs (run fs s)"
  by (induction fs arbitrary: s) simp_all

lemma powersDownAtOnce_append:
  "powersDownAtOnce xs \<Longrightarrow> powersDownAtOnce ys \<Longrightarrow> powersDownAtOnce (xs @ ys)"
proof (induction xs rule: powersDownAtOnce.induct)
  case 1
  then show ?case by simp
next
  case (2 ev)
  then show ?case by (cases ys) simp_all
next
  case (3 ev ev' evs)
  then show ?case by simp
qed

lemma powersDownAtOnce_nth:
  "powersDownAtOnce evs \<Longrightarrow> i < length evs \<Longrightarrow> observesPowerLoss (evs ! i) \<Longrightarrow>
   Suc i < length evs \<and> evs ! Suc i = Ev_powerDown"
proof (induction evs arbitrary: i rule: powersDownAtOnce.induct)
  case 1
  then show ?case by simp
next
  case (2 ev)
  then show ?case by simp
next
  case (3 ev ev' evs)
  show ?case
  proof (cases i)
    case 0
    with 3 show ?thesis by simp
  next
    case (Suc j)
    with 3 show ?thesis by simp
  qed
qed

lemma powerDownLast_append:
  "Ev_powerDown \<notin> set xs \<Longrightarrow> powerDownLast ys \<Longrightarrow> powerDownLast (xs @ ys)"
  by (auto simp add: powerDownLast_def butlast_append)

lemma isCall_simps [simp]:
  "isCall Ev_powerDown" "isCall Ev_loadSettings" "isCall Ev_beginSensors" "isCall Ev_menuMain"
  "isCall Ev_storeData" "isCall Ev_goToSleep"
  by (simp_all add: isCall_def)

lemma stopsAt_simps [simp]: "isCall ev \<Longrightarrow> stopsAt ev" "stopsAt Ev_strcpy_overrun"
  by (simp_all add: stopsAt_def)

lemma stepOK_trans:
  assumes "stepOK e s s' xs" "stepOK e s' s'' ys" "\<not> halted s'"
  shows "stepOK e s s'' (xs @ ys)"
proof -
  have "Ev_powerDown \<notin> set xs" if "neverReturns e"
    using assms(1,3) that by (auto simp add: stepOK_def)
  then show ?thesis
    using assms(1,2) by (auto simp add: stepOK_def powersDownAtOnce_append powerDownLast_append)
qed

lemma stepOK_refl [simp]: "\<not> halted s \<Longrightarrow> stepOK e s s []"
  by (simp add: stepOK_def)

lemma stepOK_single:
  "quiet ev \<Longrightarrow> trace s' = trace s @ [ev] \<Longrightarrow> \<not> halted s' \<Longrightarrow> stepOK e s s' [ev]"
  by (auto simp add: stepOK_def quiet_def)

lemma guardedStepI: "(\<And>s. \<not> halted s \<Longrightarrow> \<exists>evs. stepOK e s (f s) evs) \<Longrightarrow> guardedStep e f"
  by (simp add: guardedStep_def)

lemma guardedStepD: "guardedStep e f \<Longrightarrow> \<not> halted s \<Longrightarrow> \<exists>evs. stepOK e s (f s) evs"
  by (simp add: guardedStep_def)

lemma guardedStep_id [simp]: "guardedStep e (\<lambda>s. s)"
  by (rule guardedStepI) (rule exI [of _ "[]"], simp)

lemma guardedStep_emit [simp]: "quiet ev \<Longrightarrow> guardedStep e (emit ev e')"
  by (rule guardedStepI) (rule exI [of _ "[ev]"], simp add: stepOK_single)

lemma guardedStep_assign [simp]: "guardedStep e (assign f)"
  by (rule guardedStepI) (rule exI [of _ "[]"], simp add: stepOK_def)

lemma guardedStep_assign_dep [simp]: "guardedStep e (\<lambda>s. assign (f s) s)"
  by (rule guardedStepI) (rule exI [of _ "[]"], simp add: stepOK_def)

lemma guardedStep_call [simp]: "quiet ev \<Longrightarrow> isCall ev \<Longrightarrow> guardedStep e (call ev f e')"
  by (rule guardedStepI) (rule exI [of _ "[ev]"], auto simp add: stepOK_def quiet_def)

lemma haltFree_simps [simp]:
  "haltFree (\<lambda>s. s)" "haltFree (emit ev e)" "haltFree (assign f)" "haltFree (\<lambda>s. assign (g s) s)"
  by (simp_all add: haltFree_def)

lemma haltFree_cond [simp]:
  "haltFree f \<Longrightarrow> haltFree g \<Longrightarrow> haltFree (\<lambda>s. if c s then f s else g s)"
  by (simp add: haltFree_def)

lemma guardedStep_after:
  assumes "guardedStep e f" "haltFree f" "\<And>s. \<not> halted s \<Longrightarrow> \<exists>evs. stepOK e (f s) (g s) evs"
  shows "guardedStep e g"
proof (rule guardedStepI)
  fix s :: sys
  assume s: "\<not> halted s"
  then have fs: "\<not> halted (f s)"
    using assms(2) by (simp add: haltFree_def)
  from guardedStepD [OF assms(1) s] obtain xs where "stepOK e s (f s) xs"
    by blast
  moreover from assms(3) [OF s] obtain ys where "stepOK e (f s) (g s) ys"
    by blast
  ultimately have "stepOK e s (g s) (xs @ ys)"
    using fs by (rule stepOK_trans)
  then show "\<exists>evs. stepOK e s (g s) evs"
    by blast
qed

lemma guardedStep_then:
  assumes "guardedStep e f" "haltFree f" "\<And>x. guardedStep e (g x)"
  shows "guardedStep e (\<lambda>s. g (h s) (f s))"
  using assms(1,2)
proof (rule guardedStep_after)
  fix s :: sys
  assume "\<not> halted s"
  then have "\<not> halted (f s)"
    using assms(2) by (simp add: haltFree_def)
  then show "\<exists>evs. stepOK e (f s) (g (h s) (f s)) evs"
    by (rule guardedStepD [OF assms(3)])
qed

lemma guardedStep_cond [simp]:
  "guardedStep e f \<Longrightarrow> guardedStep e g \<Longrightarrow> guardedStep e (\<lambda>s. if c s then f s else g s)"
  by (simp add: guardedStep_def)

lemma guardedStep_bind [simp]:
  assumes "guardedStep e (\<lambda>s. snd (p s))" "haltFree (\<lambda>s. snd (p s))" "\<And>x. guardedStep e (k x)"
  shows "guardedStep e (\<lambda>s. case p s of (r, s1) \<Rightarrow> k r s1)"
  using guardedStep_then [where f = "\<lambda>s. snd (p s)" and h = "\<lambda>s. fst (p s)" and g = k, OF assms]
  by (simp add: split_beta)

lemma guardedStep_seq:
  assumes "guardedStep e f" "guardedStep e g" "\<And>s. halted s \<Longrightarrow> g s = s"
  shows "guardedStep e (\<lambda>s. g (f s))"
proof (rule guardedStepI)
  fix s :: sys
  assume s: "\<not> halted s"
  from guardedStepD [OF assms(1) s] obtain xs where xs: "stepOK e s (f s) xs"
    by blast
  show "\<exists>evs. stepOK e s (g (f s)) evs"
  proof (cases "halted (f s)")
    case True
    then show ?thesis using xs assms(3) by auto
  next
    case False
    from guardedStepD [OF assms(2) False] obtain ys where "stepOK e (f s) (g (f s)) ys"
      by blast
    with xs have "stepOK e s (g (f s)) (xs @ ys)"
      using False by (rule stepOK_trans)
    then show ?thesis by blast
  qed
qed

lemma guardedStep_list [simp]: "list_all (guardedStep e) fs \<Longrightarrow> guardedStep e (run fs)"
proof (induction fs)
  case Nil
  have "run [] = (\<lambda>s. s)" by (simp add: fun_eq_iff)
  then show ?case by simp
next
  case (Cons f fs)
  have "guardedStep e f" "guardedStep e (run fs)"
    using Cons by simp_all
  then have "guardedStep e (\<lambda>s. run fs (f s))"
    by (rule guardedStep_seq) simp
  then show ?case
    by (simp add: guardedStep_def)
qed

lemma quiet_simps [simp]:
  "quiet (Call x)" "quiet (Print x)" "quiet (PrintString x)" "quiet (Delay n)" "quiet Ev_loadSettings"
  "quiet Ev_beginSensors" "quiet Ev_menuMain" "quiet Ev_storeData" "quiet Ev_goToSleep"
  "quiet Ev_findNextAvailableLog" "quiet Ev_strcpy_overrun" "quiet (Ev_sd_begin b)" "quiet (Ev_sd_chdir b)"
  "quiet (Ev_open name fl b)" "quiet Ev_getTime" "quiet (Ev_timestamp tf dt b)"
  by (simp_all add: quiet_def observesPowerLoss_def)

lemma stepOK_checkpoint:
  "\<not> halted s \<Longrightarrow> stepOK e s (checkpoint e s)
     (Poll (lowPowerSeen (glob s)) # (if lowPowerSeen (glob s) then [Ev_powerDown] else []))"
  by (simp add: stepOK_def checkpoint_def Let_def observesPowerLoss_def neverReturns_def
      powerDownLast_def)

lemma guardedStep_checkpoint [simp]: "guardedStep e (checkpoint e)"
  by (rule guardedStepI) (blast intro: stepOK_checkpoint)

lemma stepOK_startupGuard:
  "\<not> halted s \<Longrightarrow> stepOK e s (startupGuard e s)
     (GuardRead (pinPowerLoss e (length (trace s)))
        # (if pinPowerLoss e (length (trace s)) = LOW then [Ev_powerDown] else []))"
  by (cases "pinPowerLoss e (length (trace s))")
     (simp_all add: stepOK_def startupGuard_def Let_def observesPowerLoss_def neverReturns_def
        powerDownLast_def)

lemma guardedStep_startupGuard [simp]: "guardedStep e (startupGuard e)"
  by (rule guardedStepI) (blast intro: stepOK_startupGuard)

lemma pollDelay_halted [simp]: "halted s \<Longrightarrow> pollDelay n e s = s"
  by (induction n) simp_all

lemma guardedStep_pollDelay [simp]: "guardedStep e (pollDelay n e)"
proof (induction n)
  case 0
  have "pollDelay 0 e = (\<lambda>s. s)" by (simp add: fun_eq_iff)
  then show ?case by simp
next
  case (Suc n)
  have "guardedStep e (run [checkpoint e, emit (Delay 1) e])"
    by (simp del: run.simps)
  then have "guardedStep e (\<lambda>s. pollDelay n e (run [checkpoint e, emit (Delay 1) e] s))"
    using Suc by (rule guardedStep_seq) simp
  moreover have "pollDelay (Suc n) e = (\<lambda>s. pollDelay n e (run [checkpoint e, emit (Delay 1) e] s))"
    by (simp add: fun_eq_iff)
  ultimately show ?case by simp
qed

lemma sd_call_traces [simp]:
  "trace (snd (sd_begin e s)) = trace s @ [Ev_sd_begin (fst (sd_begin e s))]"
  "trace (snd (sd_chdir e s)) = trace s @ [Ev_sd_chdir (fst (sd_chdir e s))]"
  "trace (snd (sd_open name fl e s)) = trace s @ [Ev_open name fl (fst (sd_open name fl e s))]"
  by (simp_all add: sd_begin_def sd_chdir_def sd_open_def Let_def)

lemma sd_call_halted [simp]:
  "halted (snd (sd_begin e s)) = halted s"
  "halted (snd (sd_chdir e s)) = halted s"
  "halted (snd (sd_open name fl e s)) = halted s"
  by (simp_all add: sd_begin_def sd_chdir_def sd_open_def Let_def)

lemma haltFree_sd_calls [simp]:
  "haltFree (\<lambda>s. snd (sd_begin e s))" "haltFree (\<lambda>s. snd (sd_chdir e s))"
  "haltFree f \<Longrightarrow> haltFree (\<lambda>s. snd (sd_open (name s) (fl s) e (f s)))"
  "haltFree f \<Longrightarrow> haltFree (\<lambda>s. snd (file_timestamp (tf s) (dt s) e (f s)))"
  "haltFree (rtc_getTime e)"
  by (simp_all add: haltFree_def)

lemma guardedStep_sd_calls [simp]:
  "guardedStep e (\<lambda>s. snd (sd_begin e' s))"
  "guardedStep e (\<lambda>s. snd (sd_chdir e' s))"
  by (rule guardedStepI, rule exI, rule stepOK_single, simp_all)+

lemma guardedStep_file_timestamp [simp]:
  "guardedStep e f \<Longrightarrow> haltFree f \<Longrightarrow>
   guardedStep e (\<lambda>s. snd (file_timestamp (fl s) (dt s) e' (f s)))"
  by (erule guardedStep_after) (assumption, rule exI, rule stepOK_single, simp_all add: haltFree_def)

lemma guardedStep_sd_open [simp]:
  "guardedStep e f \<Longrightarrow> haltFree f \<Longrightarrow>
   guardedStep e (\<lambda>s. snd (sd_open (name s) (fl s) e' (f s)))"
  by (erule guardedStep_after) (assumption, rule exI, rule stepOK_single, simp_all add: haltFree_def)

lemma guardedStep_rtc_getTime [simp]: "guardedStep e (rtc_getTime e')"
  by (rule guardedStepI, rule exI, rule stepOK_single) simp_all

lemma guardedStep_beginSD_chdir [simp]: "guardedStep e (beginSD_chdir e)"
  unfolding beginSD_chdir_def [abs_def] Let_def
  by (simp del: run.simps)

lemma guardedStep_beginSD_retry [simp]: "guardedStep e (beginSD_retry e)"
  unfolding beginSD_retry_def [abs_def] Let_def
  by (simp del: run.simps)

lemma guardedStep_beginSD_begin [simp]: "guardedStep e (beginSD_begin e)"
  unfolding beginSD_begin_def [abs_def] Let_def
  by (simp del: run.simps)

lemma guardedStep_beginSD [simp]: "guardedStep e (beginSD e)"
  unfolding beginSD_def [abs_def]
  by (simp del: run.simps)

lemma guardedStep_updateDataFileCreate [simp]: "guardedStep e (updateDataFileCreate e)"
  unfolding updateDataFileCreate_def [abs_def] Let_def
  by (simp del: run.simps)

lemma allocateLogName_simps [simp]:
  "trace (allocateLogName e s) =
     trace s @ Ev_findNextAvailableLog # (if nameFits e s then [] else [Ev_strcpy_overrun])"
  "halted (allocateLogName e s) = (halted s \<or> \<not> nameFits e s)"
  "nameFits e s \<Longrightarrow> gnssDataFileName (glob (allocateLogName e s)) =
     fst (findNextAvailableLog e (nextDataLogNumber (settings (glob s))) ''dataLog'' (glob s))"
  "sd (glob (allocateLogName e s)) =
     sd (snd (findNextAvailableLog e (nextDataLogNumber (settings (glob s))) ''dataLog'' (glob s)))"
  by (simp_all add: allocateLogName_def nameFits_def split_beta Let_def)

lemma guardedStep_allocateLogName [simp]: "guardedStep e (allocateLogName e')"
proof (rule guardedStepI)
  fix s :: sys
  assume "\<not> halted s"
  then have "stepOK e s (allocateLogName e' s)
      (Ev_findNextAvailableLog # (if nameFits e' s then [] else [Ev_strcpy_overrun]))"
    by (simp add: stepOK_def observesPowerLoss_def)
  then show "\<exists>evs. stepOK e s (allocateLogName e' s) evs"
    by blast
qed

lemma guardedStep_logNameStep [simp]: "guardedStep e (logNameStep e)"
  unfolding logNameStep_def [abs_def]
  by (simp del: run.simps)

lemma guardedStep_openLogFile [simp]: "guardedStep e (openLogFile e)"
  unfolding openLogFile_def [abs_def] Let_def
  using guardedStep_sd_open [where f = "\<lambda>s. s" and e = e and e' = e]
  by (simp del: run.simps)

lemma guardedStep_beginDataLogging [simp]: "guardedStep e (beginDataLogging e)"
  unfolding beginDataLogging_def [abs_def]
  by (simp del: run.simps)

lemma guardedStep_callBeginSensors [simp]: "guardedStep e (callBeginSensors e)"
proof (rule guardedStepI)
  fix s :: sys
  assume "\<not> halted s"
  then have "stepOK e s (callBeginSensors e s)
          (Ev_beginSensors # (case beginSensors e (glob s) of None \<Rightarrow> []
             | Some (r, gl) \<Rightarrow>
                 [if r then PrintString (beginSensorOutput (tick e (length (trace s)) gl))
                  else Print ''No sensors detected'']))"
    by (simp add: stepOK_def callBeginSensors_def Let_def observesPowerLoss_def
        split: option.splits)
  then show "\<exists>evs. stepOK e s (callBeginSensors e s) evs"
    by blast
qed

lemma guardedStep_attach [simp]: "guardedStep e (attachLowPowerInterrupt e)"
  by (rule guardedStepI, rule exI, rule stepOK_single)
     (simp_all add: attachLowPowerInterrupt_def)

lemma guardedStep_parts [simp]:
  "guardedStep e (startWatchdog e)" "guardedStep e (beginQwiic e)" "guardedStep e (disableIMU e)"
  unfolding startWatchdog_def [abs_def] beginQwiic_def [abs_def] disableIMU_def [abs_def]
  by (simp_all del: run.simps)

lemma guardedStep_setup [simp]: "guardedStep e (setup_ola e)"
  unfolding setup_ola_def [abs_def]
  by (simp del: run.simps)

lemma guardedStep_sleepIfDue [simp]: "guardedStep e (sleepIfDue e)"
  unfolding sleepIfDue_def [abs_def] Let_def
  by (simp del: run.simps)

lemma guardedStep_loop [simp]: "guardedStep e (loop e)"
  unfolding loop_def [abs_def]
  by (simp del: run.simps)

lemma emitsOnlyI: "(\<And>s. \<exists>evs. trace (f s) = trace s @ evs \<and> list_all Q evs) \<Longrightarrow> emitsOnly Q f"
  by (simp add: emitsOnly_def)

lemma emitsOnly_id [simp]: "emitsOnly Q (\<lambda>s. s)"
  by (simp add: emitsOnly_def)

lemma emitsOnly_emit [simp]: "Q ev \<Longrightarrow> emitsOnly Q (emit ev e)"
  by (simp add: emitsOnly_def)

lemma emitsOnly_assign [simp]: "emitsOnly Q (assign f)" "emitsOnly Q (\<lambda>s. assign (g s) s)"
  by (simp_all add: emitsOnly_def)

lemma emitsOnly_call [simp]: "Q ev \<Longrightarrow> emitsOnly Q (call ev f e)"
  by (simp add: emitsOnly_def)

lemma emitsOnly_cond [simp]:
  "emitsOnly Q f \<Longrightarrow> emitsOnly Q g \<Longrightarrow> emitsOnly Q (\<lambda>s. if c s then f s else g s)"
  by (simp add: emitsOnly_def)

lemma emitsOnly_comp:
  assumes "emitsOnly Q f" "emitsOnly Q g"
  shows "emitsOnly Q (\<lambda>s. g (f s))"
proof (rule emitsOnlyI)
  fix s :: sys
  from assms(1) obtain xs where "trace (f s) = trace s @ xs" "list_all Q xs"
    unfolding emitsOnly_def by blast
  moreover from assms(2) obtain ys where "trace (g (f s)) = trace (f s) @ ys" "list_all Q ys"
    unfolding emitsOnly_def by blast
  ultimately have "trace (g (f s)) = trace s @ (xs @ ys) \<and> list_all Q (xs @ ys)"
    by simp
  then show "\<exists>evs. trace (g (f s)) = trace s @ evs \<and> list_all Q evs"
    by blast
qed

lemma emitsOnly_bind [simp]:
  assumes "emitsOnly Q (\<lambda>s. snd (p s))" "\<And>x. emitsOnly Q (k x)"
  shows "emitsOnly Q (\<lambda>s. case p s of (r, s1) \<Rightarrow> k r s1)"
proof (rule emitsOnlyI)
  fix s :: sys
  from assms(1) obtain xs where "trace (snd (p s)) = trace s @ xs" "list_all Q xs"
    unfolding emitsOnly_def by blast
  moreover from assms(2) [of "fst (p s)"] obtain ys
    where "trace (k (fst (p s)) (snd (p s))) = trace (snd (p s)) @ ys" "list_all Q ys"
    unfolding emitsOnly_def by blast
  ultimately have "trace (case p s of (r, s1) \<Rightarrow> k r s1) = trace s @ (xs @ ys) \<and> list_all Q (xs @ ys)"
    by (simp add: split_beta)
  then show "\<exists>evs. trace (case p s of (r, s1) \<Rightarrow> k r s1) = trace s @ evs \<and> list_all Q evs"
    by blast
qed

lemma emitsOnly_list [simp]: "list_all (emitsOnly Q) fs \<Longrightarrow> emitsOnly Q (run fs)"
proof (induction fs)
  case Nil
  have "run [] = (\<lambda>s. s)" by (simp add: fun_eq_iff)
  then show ?case by simp
next
  case (Cons f fs)
  have "emitsOnly Q f" "emitsOnly Q (run fs)"
    using Cons by simp_all
  then have "emitsOnly Q (\<lambda>s. run fs (f s))"
    by (rule emitsOnly_comp)
  then show ?case
    by (auto simp add: emitsOnly_def)
qed

lemma emitsOnly_checkpoint [simp]:
  "Q (Poll True) \<Longrightarrow> Q (Poll False) \<Longrightarrow> Q Ev_powerDown \<Longrightarrow> emitsOnly Q (checkpoint e)"
  by (simp add: emitsOnly_def checkpoint_def Let_def)

lemma emitsOnly_pollDelay [simp]:
  assumes "Q (Poll True)" "Q (Poll False)" "Q Ev_powerDown" "Q (Delay 1)"
  shows "emitsOnly Q (pollDelay n e)"
proof (induction n)
  case 0
  have "pollDelay 0 e = (\<lambda>s. s)" by (simp add: fun_eq_iff)
  then show ?case by simp
next
  case (Suc n)
  have "emitsOnly Q (run [checkpoint e, emit (Delay 1) e])"
    using assms by (simp del: run.simps)
  then have "emitsOnly Q (\<lambda>s. pollDelay n e (run [checkpoint e, emit (Delay 1) e] s))"
    using Suc by (rule emitsOnly_comp)
  moreover have "pollDelay (Suc n) e = (\<lambda>s. pollDelay n e (run [checkpoint e, emit (Delay 1) e] s))"
    by (simp add: fun_eq_iff)
  ultimately show ?case by simp
qed

lemma emitsOnly_sd_calls [simp]:
  "(\<And>b. Q (Ev_sd_begin b)) \<Longrightarrow> emitsOnly Q (\<lambda>s. snd (sd_begin e s))"
  "(\<And>b. Q (Ev_sd_chdir b)) \<Longrightarrow> emitsOnly Q (\<lambda>s. snd (sd_chdir e s))"
  by (simp_all add: emitsOnly_def sd_begin_def sd_chdir_def Let_def)

lemma emitsOnly_beginSD: "emitsOnly (\<lambda>ev. ev \<noteq> Ev_strcpy_overrun) (beginSD e)"
  unfolding beginSD_def [abs_def] beginSD_begin_def [abs_def] beginSD_retry_def [abs_def]
    beginSD_chdir_def [abs_def] Let_def
  by (simp del: run.simps)

lemma emitsOnly_loop: "emitsOnly (\<lambda>ev. ev \<noteq> Ev_strcpy_overrun) (loop e)"
  unfolding loop_def [abs_def] sleepIfDue_def [abs_def] Let_def
  by (simp del: run.simps)

lemma halts_at_call:
  assumes "guardedStep e f" "emitsOnly (\<lambda>ev. ev \<noteq> Ev_strcpy_overrun) f" "\<not> halted s" "halted (f s)"
  shows "isCall (last (newEvents s (f s)))"
proof -
  from guardedStepD [OF assms(1,3)] assms(4)
  have "newEvents s (f s) \<noteq> []" "stopsAt (last (newEvents s (f s)))"
    by (auto simp add: stepOK_def newEvents_def)
  moreover have "list_all (\<lambda>ev. ev \<noteq> Ev_strcpy_overrun) (newEvents s (f s))"
  proof -
    from assms(2) obtain evs where "trace (f s) = trace s @ evs"
      "list_all (\<lambda>ev. ev \<noteq> Ev_strcpy_overrun) evs"
      unfolding emitsOnly_def by blast
    then show ?thesis
      by (simp add: newEvents_def)
  qed
  ultimately show ?thesis
    by (auto simp add: stopsAt_def list_all_iff dest: last_in_set)
qed

lemma guardedStep_newEvents:
  assumes "guardedStep e f" "\<not> halted s"
  shows "powersDownAtOnce (newEvents s (f s))"
    and "neverReturns e \<Longrightarrow> Ev_powerDown \<in> set (newEvents s (f s)) \<Longrightarrow>
           halted (f s) \<and> powerDownLast (newEvents s (f s))"
    and "trace (f s) = trace s @ newEvents s (f s)"
  using guardedStepD [OF assms] by (auto simp add: stepOK_def newEvents_def)

lemma powerDownLast_index:
  assumes "powerDownLast evs" "j < length evs" "evs ! j = Ev_powerDown"
  shows "Suc j = length evs"
proof (rule ccontr)
  assume "Suc j \<noteq> length evs"
  with assms(2) have "j < length (butlast evs)" by simp
  then have "butlast evs ! j \<in> set (butlast evs)" by (rule nth_mem)
  moreover have "butlast evs ! j = evs ! j"
    using \<open>j < length (butlast evs)\<close> by (rule nth_butlast)
  ultimately show False
    using assms(1,3) by (simp add: powerDownLast_def)
qed

lemma guardedStep_observation:
  assumes "guardedStep e f" "\<not> halted s" "i < length (newEvents s (f s))"
    "observesPowerLoss (newEvents s (f s) ! i)"
  shows "Suc i < length (newEvents s (f s)) \<and> newEvents s (f s) ! Suc i = Ev_powerDown
         \<and> (neverReturns e \<longrightarrow> Suc (Suc i) = length (newEvents s (f s)) \<and> halted (f s))"
proof -
  have pd: "Suc i < length (newEvents s (f s)) \<and> newEvents s (f s) ! Suc i = Ev_powerDown"
    using powersDownAtOnce_nth [OF guardedStep_newEvents(1) [OF assms(1,2)] assms(3,4)] .
  then have mem: "Ev_powerDown \<in> set (newEvents s (f s))"
    by (metis nth_mem)
  have "Suc (Suc i) = length (newEvents s (f s)) \<and> halted (f s)" if "neverReturns e"
    using guardedStep_newEvents(2) [OF assms(1,2) that mem] pd
    by (auto dest: powerDownLast_index)
  with pd show ?thesis by blast
qed

lemma setup_boot_trace:
  assumes "\<not> halted s"
  shows "trace (run [emit (Call ''pinMode(PIN_POWER_LOSS, INPUT)'') e,
          emit (Delay 1) e,
          attachLowPowerInterrupt e,
          startWatchdog e,
          emit (Call ''powerLEDOn()'') e,
          emit (Call ''pinMode(PIN_STAT_LED, OUTPUT)'') e,
          emit (Call ''digitalWrite(PIN_STAT_LED, HIGH)'') e,
          startupGuard e] s) =
     trace s @
       [Call ''pinMode(PIN_POWER_LOSS, INPUT)'', Delay 1,
        Call ''attachInterrupt(digitalPinToInterrupt(PIN_POWER_LOSS), lowPowerISR, FALLING)'',
        Call ''am_hal_clkgen_control(AM_HAL_CLKGEN_CONTROL_LFRC_START, 0)'',
        Call ''am_hal_wdt_init(&g_sWatchdogConfig)'',
        Call ''NVIC_EnableIRQ(WDT_IRQn)'',
        Call ''am_hal_wdt_start()'',
        Call ''powerLEDOn()'',
        Call ''pinMode(PIN_STAT_LED, OUTPUT)'',
        Call ''digitalWrite(PIN_STAT_LED, HIGH)'',
        GuardRead (pinPowerLoss e (length (trace s) + 10))]
       @ (if pinPowerLoss e (length (trace s) + 10) = LOW then [Ev_powerDown] else [])"
proof -
  have n: "length (trace s) + 10 =
           Suc (Suc (Suc (Suc (Suc (Suc (Suc (Suc (Suc (Suc (length (trace s)))))))))))"
    by simp
  show ?thesis
    unfolding n using assms
    by (simp add: startWatchdog_def attachLowPowerInterrupt_def startupGuard_def Let_def)
qed

lemma setup_ola_split:
  "setup_ola e s =
     run [(\<lambda>s. if 0 \<le> PIN_LOGIC_DEBUG
                then run [emit (Call ''pinMode(PIN_LOGIC_DEBUG, OUTPUT)'') e,
                          emit (Call ''digitalWrite(PIN_LOGIC_DEBUG, HIGH)'') e] s
                else s),
          emit (Call ''Serial.begin(115200)'') e,
          emit (Print []) e,
          emit (Call ''SPI.begin()'') e,
          beginSD e,
          checkpoint e,
          call Ev_loadSettings (loadSettings e) e,
          checkpoint e,
          emit (Call ''Serial.flush()'') e,
          emit (Call ''Serial.begin(settings.serialTerminalBaudRate)'') e,
          emit (Print ''Artemis OpenLog GNSS v1.1'') e,
          checkpoint e,
          beginQwiic e,
          checkpoint e,
          emit (Call ''analogReadResolution(14)'') e,
          beginDataLogging e,
          checkpoint e,
          disableIMU e,
          checkpoint e,
          (\<lambda>s. if online_microSD (glob s) = True then emit (Print ''SD card online'') e s
                else emit (Print ''SD card offline'') e s),
          (\<lambda>s. if online_dataLogging (glob s) = True then emit (Print ''Data logging online'') e s
                else emit (Print ''Datalogging offline'') e s),
          (\<lambda>s. if enableTerminalOutput (settings (glob s)) = False \<and> logData (settings (glob s)) = True
                then emit (Print ''Logging to microSD card with no terminal output'') e s
                else s),
          callBeginSensors e,
          (\<lambda>s. assign (\<lambda>gl. gl\<lparr>measurementStartTime := rtcMillis e (length (trace s))\<rparr>) s),
          checkpoint e,
          emit (Call ''digitalWrite(PIN_STAT_LED, LOW)'') e]
      (run [emit (Call ''pinMode(PIN_POWER_LOSS, INPUT)'') e,
          emit (Delay 1) e,
          attachLowPowerInterrupt e,
          startWatchdog e,
          emit (Call ''powerLEDOn()'') e,
          emit (Call ''pinMode(PIN_STAT_LED, OUTPUT)'') e,
          emit (Call ''digitalWrite(PIN_STAT_LED, HIGH)'') e,
          startupGuard e] s)"
  by (simp only: setup_ola_def run_append [symmetric] append.simps)

lemma setup_ola_prefix:
  assumes "\<not> halted s"
  shows "take 11 (newEvents s (setup_ola e s)) =
       [Call ''pinMode(PIN_POWER_LOSS, INPUT)'', Delay 1,
        Call ''attachInterrupt(digitalPinToInterrupt(PIN_POWER_LOSS), lowPowerISR, FALLING)'',
        Call ''am_hal_clkgen_control(AM_HAL_CLKGEN_CONTROL_LFRC_START, 0)'',
        Call ''am_hal_wdt_init(&g_sWatchdogConfig)'',
        Call ''NVIC_EnableIRQ(WDT_IRQn)'',
        Call ''am_hal_wdt_start()'',
        Call ''powerLEDOn()'',
        Call ''pinMode(PIN_STAT_LED, OUTPUT)'',
        Call ''digitalWrite(PIN_STAT_LED, HIGH)'',
        GuardRead (pinPowerLoss e (length (trace s) + 10))]"
proof -
  define boot where "boot = run [emit (Call ''pinMode(PIN_POWER_LOSS, INPUT)'') e,
          emit (Delay 1) e,
          attachLowPowerInterrupt e,
          startWatchdog e,
          emit (Call ''powerLEDOn()'') e,
          emit (Call ''pinMode(PIN_STAT_LED, OUTPUT)'') e,
          emit (Call ''digitalWrite(PIN_STAT_LED, HIGH)'') e,
          startupGuard e] s"
  have "\<exists>evs. trace (setup_ola e s) = trace boot @ evs"
  proof (cases "halted boot")
    case True
    then show ?thesis
      unfolding setup_ola_split boot_def [symmetric] by simp
  next
    case False
    show ?thesis
      unfolding setup_ola_split boot_def [symmetric]
      by (rule exI, rule guardedStep_newEvents(3) [OF _ False, where e = e])
         (simp del: run.simps)
  qed
  then obtain evs where "trace (setup_ola e s) = trace boot @ evs"
    by blast
  then show ?thesis
    using setup_boot_trace [OF assms, of e]
    by (simp add: newEvents_def boot_def)
qed

lemma setup_missed_trace:
  "newEvents sys0 (setup_ola env_missed sys0) =
       [Call ''pinMode(PIN_POWER_LOSS, INPUT)'', Delay 1,
        Call ''attachInterrupt(digitalPinToInterrupt(PIN_POWER_LOSS), lowPowerISR, FALLING)'',
        Call ''am_hal_clkgen_control(AM_HAL_CLKGEN_CONTROL_LFRC_START, 0)'',
        Call ''am_hal_wdt_init(&g_sWatchdogConfig)'',
        Call ''NVIC_EnableIRQ(WDT_IRQn)'',
        Call ''am_hal_wdt_start()'',
        Call ''powerLEDOn()'',
        Call ''pinMode(PIN_STAT_LED, OUTPUT)'',
        Call ''digitalWrite(PIN_STAT_LED, HIGH)'',
        GuardRead LOW, Ev_powerDown]"
  by (simp add: newEvents_def setup_ola_def startWatchdog_def attachLowPowerInterrupt_def
      startupGuard_def Let_def sys0_def env_missed_def env0_def call_def)

lemma loop_irq_trace:
  "newEvents sys_attached (loop env_irq1 sys_attached) = [Poll False, Ev_storeData, Poll True, Ev_powerDown]"
  by (simp add: newEvents_def loop_def checkpoint_def Let_def sys_attached_def sys0_def globals0_def
      env_irq1_def env0_def call_def emit_def tick_def lowPowerISR_def)

lemma setup_irq_trace:
  "newEvents sys0 (setup_ola env_irq sys0) =
       [Call ''pinMode(PIN_POWER_LOSS, INPUT)'', Delay 1,
        Call ''attachInterrupt(digitalPinToInterrupt(PIN_POWER_LOSS), lowPowerISR, FALLING)'',
        Call ''am_hal_clkgen_control(AM_HAL_CLKGEN_CONTROL_LFRC_START, 0)'',
        Call ''am_hal_wdt_init(&g_sWatchdogConfig)'',
        Call ''NVIC_EnableIRQ(WDT_IRQn)'',
        Call ''am_hal_wdt_start()'',
        Call ''powerLEDOn()'',
        Call ''pinMode(PIN_STAT_LED, OUTPUT)'',
        Call ''digitalWrite(PIN_STAT_LED, HIGH)'',
        GuardRead HIGH,
        Call ''pinMode(PIN_LOGIC_DEBUG, OUTPUT)'',
        Call ''digitalWrite(PIN_LOGIC_DEBUG, HIGH)'',
        Call ''Serial.begin(115200)'',
        Print [],
        Call ''SPI.begin()'',
        Call ''pinMode(PIN_MICROSD_POWER, OUTPUT)'',
        Call ''pinMode(PIN_MICROSD_CHIP_SELECT, OUTPUT)'',
        Call ''digitalWrite(PIN_MICROSD_CHIP_SELECT, HIGH)'',
        Call ''microSDPowerOff()'',
        Poll False, Ev_loadSettings, Poll True, Ev_powerDown]"
  by (simp add: newEvents_def setup_ola_def startWatchdog_def attachLowPowerInterrupt_def
      startupGuard_def beginSD_def checkpoint_def Let_def sys0_def globals0_def settings0_def
      env_irq_def env0_def call_def emit_def tick_def lowPowerISR_def assign_def)

subsection \<open>Resynchronising the clock after sleep\<close>

lemma sleepIfDue_sync:
  assumes "\<not> halted s" "\<not> halted (sleepIfDue e s)"
    "timeToSleep (rtcMillis e (length (trace s))) (glob s)"
  shows "rtcNeedsSync (glob (sleepIfDue e s)) \<and> last (trace (sleepIfDue e s)) = Ev_goToSleep"
proof -
  define s1 where "s1 = (if printMajorDebugMessages (settings (glob s)) then emit (Print ''Going to sleep...'') e s else s)"
  have s1: "\<not> halted s1"
    using assms(1) by (simp add: s1_def)
  have eq: "sleepIfDue e s = run [call Ev_goToSleep (goToSleep e) e, assign advanceMeasurementStartTime,
          assign (\<lambda>gl. gl\<lparr>rtcNeedsSync := True\<rparr>)] s1"
    using assms(1,3) by (simp add: sleepIfDue_due s1_def)
  have "\<not> halted (call Ev_goToSleep (goToSleep e) e s1)"
    using assms(2) s1 unfolding eq by (auto split: if_splits)
  then show ?thesis
    unfolding eq using s1 by auto
qed

lemma loop_split:
  "loop e s = run [sleepIfDue e]
     (run [checkpoint e,
          (\<lambda>s. if serialAvailable e (length (trace s)) then call Ev_menuMain (menuMain e) e s else s),
          call Ev_storeData (storeData e) e,
          checkpoint e] s)"
  by (simp only: loop_def run_append [symmetric] append.simps)

lemma checkpoint_trace:
  "trace (checkpoint e s) =
     trace s @ Poll (lowPowerSeen (glob s)) # (if lowPowerSeen (glob s) then [Ev_powerDown] else [])"
  by (simp add: checkpoint_def Let_def)

lemma loop_head_events:
  "\<exists>evs. trace (run [checkpoint e,
          (\<lambda>s. if serialAvailable e (length (trace s)) then call Ev_menuMain (menuMain e) e s else s),
          call Ev_storeData (storeData e) e,
          checkpoint e] s) = trace s @ evs \<and> Ev_goToSleep \<notin> set evs"
  by (rule run_invariant [where I = "\<lambda>s'. \<exists>evs. trace s' = trace s @ evs \<and> Ev_goToSleep \<notin> set evs"])
     (auto simp add: checkpoint_trace)

text \<open>C8. Whenever a pass of \<^verbatim>\<open>loop\<close> has called \<^verbatim>\<open>goToSleep\<close> and that call has returned,
  \<^verbatim>\<open>rtcNeedsSync\<close> is true at the end of the pass and the call of \<^verbatim>\<open>goToSleep\<close> is still the
  last event: no \<^verbatim>\<open>storeData\<close> has run since the wake.\<close>

theorem C8_resync_after_sleep:
  "\<not> halted s \<and> \<not> halted (loop e s) \<and> Ev_goToSleep \<in> set (newEvents s (loop e s)) \<longrightarrow>
     rtcNeedsSync (glob (loop e s)) = True \<and> last (trace (loop e s)) = Ev_goToSleep"
proof (intro impI, elim conjE)
  assume run: "\<not> halted s" and ret: "\<not> halted (loop e s)"
    and slept: "Ev_goToSleep \<in> set (newEvents s (loop e s))"
  define s4 where "s4 = run [checkpoint e,
          (\<lambda>s. if serialAvailable e (length (trace s)) then call Ev_menuMain (menuMain e) e s else s),
          call Ev_storeData (storeData e) e,
          checkpoint e] s"
  have eq: "loop e s = run [sleepIfDue e] s4"
    unfolding s4_def by (rule loop_split)
  from loop_head_events [of e s] obtain evs where evs: "trace s4 = trace s @ evs" "Ev_goToSleep \<notin> set evs"
    unfolding s4_def by blast
  have s4: "\<not> halted s4"
    using ret unfolding eq by (auto split: if_splits)
  then have eq': "loop e s = sleepIfDue e s4"
    unfolding eq by simp
  have due: "timeToSleep (rtcMillis e (length (trace s4))) (glob s4)"
  proof (rule ccontr)
    assume "\<not> timeToSleep (rtcMillis e (length (trace s4))) (glob s4)"
    then have "loop e s = s4"
      unfolding eq' by (rule sleepIfDue_idle)
    then show False
      using slept evs by (simp add: newEvents_def)
  qed
  show "rtcNeedsSync (glob (loop e s)) = True \<and> last (trace (loop e s)) = Ev_goToSleep"
    using sleepIfDue_sync [OF s4 _ due] ret unfolding eq' by simp
qed

theorem C8_witness:
  "\<not> halted sys0 \<and> \<not> halted (loop env_sleepy sys0)
   \<and> newEvents sys0 (loop env_sleepy sys0) = [Poll False, Ev_storeData, Poll False, Ev_goToSleep]
   \<and> rtcNeedsSync (glob (loop env_sleepy sys0)) = True
   \<and> last (trace (loop env_sleepy sys0)) = Ev_goToSleep"
proof -
  have tr: "newEvents sys0 (loop env_sleepy sys0) = [Poll False, Ev_storeData, Poll False, Ev_goToSleep]"
    by (simp add: newEvents_def loop_def sleepIfDue_def timeToSleep_def checkpoint_def Let_def
        sys0_def globals0_def settings0_def env_sleepy_def env0_def call_def emit_def tick_def)
  have h: "\<not> halted sys0" "\<not> halted (loop env_sleepy sys0)"
    by (simp_all add: loop_def sleepIfDue_def timeToSleep_def checkpoint_def Let_def
        sys0_def globals0_def settings0_def env_sleepy_def env0_def call_def emit_def tick_def)
  show ?thesis
    using C8_resync_after_sleep [of sys0 env_sleepy] tr h by simp
qed

subsection \<open>Opening the log file\<close>

lemma guardedStep_halts:
  assumes "guardedStep e f" "\<not> halted s" "halted (f s)"
  shows "newEvents s (f s) \<noteq> [] \<and> stopsAt (last (newEvents s (f s)))"
  using guardedStepD [OF assms(1,2)] assms(3) by (auto simp add: stepOK_def newEvents_def)

lemma bytesIntact_refl [simp]: "bytesIntact gl gl"
  by (simp add: bytesIntact_def)

lemma bytesIntact_trans: "bytesIntact a b \<Longrightarrow> bytesIntact b c \<Longrightarrow> bytesIntact a c"
  by (fastforce simp add: bytesIntact_def)

lemma bytesIntact_sd: "sd gl' = sd gl \<Longrightarrow> bytesIntact gl gl'"
  by (simp add: bytesIntact_def)

lemma bytesIntact_open_file: "O_TRUNC \<notin> fl \<Longrightarrow> bytesIntact gl (open_file name fl gl)"
  by (auto simp add: bytesIntact_def open_file_def split: option.splits)

lemma sd_open_result:
  "fst (sd_open name appendCreate e s) = fileOpenOk e (length (trace s))"
  by (simp add: sd_open_def appendCreate_def Let_def)

lemma sd_open_glob:
  "glob (snd (sd_open name fl e s)) =
     (if fst (sd_open name fl e s) then open_file name fl (tick e (length (trace s)) (glob s))
      else tick e (length (trace s)) (glob s))"
  by (simp add: sd_open_def Let_def)

lemma bytesIntact_tick [simp]:
  "bytesIntact gl (tick e n gl') = bytesIntact gl gl'"
  "bytesIntact (tick e n gl) gl' = bytesIntact gl gl'"
  by (simp_all add: bytesIntact_def)

lemma bytesIntact_sd_open:
  "O_TRUNC \<notin> fl \<Longrightarrow> bytesIntact (glob s) (glob (snd (sd_open name fl e s)))"
  using bytesIntact_open_file [of fl "tick e (length (trace s)) (glob s)" name]
  by (simp add: sd_open_glob)

lemma bytesIntact_file_timestamp:
  "bytesIntact (glob s) (glob (snd (file_timestamp fl dt e s)))"
  by (auto simp add: file_timestamp_def bytesIntact_def open_target_def stamp_def Let_def
      split: option.splits prod.splits)

lemma bytesIntact_updateDataFileCreate:
  "bytesIntact (glob s) (glob (updateDataFileCreate e s))"
proof (cases "rtcHasBeenSyncd (glob s)")
  case False
  then show ?thesis by (simp add: updateDataFileCreate_def)
next
  case True
  define s2 where "s2 = snd (file_timestamp {T_CREATE} (rtc_datetime (myRTC (glob (rtc_getTime e s)))) e (rtc_getTime e s))"
  have "bytesIntact (glob (rtc_getTime e s)) (glob s2)"
    unfolding s2_def by (rule bytesIntact_file_timestamp)
  then have a: "bytesIntact (glob s) (glob s2)"
    by (simp add: bytesIntact_def)
  have "sd (glob (updateDataFileCreate e s)) = sd (glob s2)"
    using True by (simp add: updateDataFileCreate_def Let_def split_beta s2_def)
  then show ?thesis
    using a by (simp add: bytesIntact_def)
qed

lemma updateDataFileCreate_frame [simp]:
  "halted (updateDataFileCreate e s) = halted s"
  "gnssDataFileName (glob (updateDataFileCreate e s)) = gnssDataFileName (glob s)"
  "gnssDataFile (glob (updateDataFileCreate e s)) = gnssDataFile (glob s)"
  by (simp_all add: updateDataFileCreate_def Let_def split_beta file_timestamp_def rtc_getTime_def
      split: option.splits)

lemma openCalls_append [simp]: "openCalls (xs @ ys) = openCalls xs @ openCalls ys"
  by (induction xs rule: openCalls.induct) simp_all

lemma updateDataFileCreate_events:
  "\<exists>evs. trace (updateDataFileCreate e s) = trace s @ evs \<and> openCalls evs = []
         \<and> Ev_findNextAvailableLog \<notin> set evs"
  by (cases "halted s") (simp_all add: updateDataFileCreate_def Let_def split_beta)

lemma beginDataLogging_offline:
  "\<not> (online_microSD (glob s) \<and> logData (settings (glob s))) \<Longrightarrow>
   beginDataLogging e s = assign (\<lambda>gl. gl\<lparr>online_dataLogging := False\<rparr>) s"
proof -
  assume "\<not> (online_microSD (glob s) \<and> logData (settings (glob s)))"
  then have "(online_microSD (glob s) = True \<and> logData (settings (glob s)) = True) = False"
    by simp
  then show ?thesis
    unfolding beginDataLogging_def by (simp only: if_False)
qed

lemma logNameStep_simps [simp]:
  "halted (logNameStep e s) = (halted s \<or> ((gnssDataFileName (glob s) = [] \<or> openNewLogFile (settings (glob s))) \<and> \<not> nameFits e s))"
  "trace (logNameStep e s) =
     trace s @ (if (gnssDataFileName (glob s) = [] \<or> openNewLogFile (settings (glob s)))
                then Ev_findNextAvailableLog # (if nameFits e s then [] else [Ev_strcpy_overrun])
                else [])"
  "\<not> halted (logNameStep e s) \<Longrightarrow>
   gnssDataFileName (glob (logNameStep e s)) =
     (if (gnssDataFileName (glob s) = [] \<or> openNewLogFile (settings (glob s))) then fst (findNextAvailableLog e (nextDataLogNumber (settings (glob s))) ''dataLog'' (glob s)) else gnssDataFileName (glob s))"
  by (auto simp add: logNameStep_def)

lemma logNameStep_reuse: "\<not> (gnssDataFileName (glob s) = [] \<or> openNewLogFile (settings (glob s))) \<Longrightarrow> logNameStep e s = s"
  by (simp add: logNameStep_def)

lemma nextUnused_fits: "nextUnused e (glob s) \<Longrightarrow> nameFits e s"
  by (simp add: nextUnused_def nameFits_def split_beta)

lemma nextUnused_intact: "nextUnused e (glob s) \<Longrightarrow> bytesIntact (glob s) (glob (logNameStep e s))"
  by (simp add: logNameStep_def nextUnused_def bytesIntact_def split_beta)

lemma nextUnused_fresh:
  assumes "nextUnused e (glob s)"
  shows "sd (glob s) (fst (findNextAvailableLog e (nextDataLogNumber (settings (glob s))) ''dataLog'' (glob s))) = None"
    and "(gnssDataFileName (glob s) = [] \<or> openNewLogFile (settings (glob s))) \<Longrightarrow> sd (glob (logNameStep e s)) (fst (findNextAvailableLog e (nextDataLogNumber (settings (glob s))) ''dataLog'' (glob s))) = None"
proof -
  show "(gnssDataFileName (glob s) = [] \<or> openNewLogFile (settings (glob s))) \<Longrightarrow> sd (glob (logNameStep e s)) (fst (findNextAvailableLog e (nextDataLogNumber (settings (glob s))) ''dataLog'' (glob s))) = None"
    using assms by (simp add: logNameStep_def nextUnused_def split_beta)
  show "sd (glob s) (fst (findNextAvailableLog e (nextDataLogNumber (settings (glob s))) ''dataLog'' (glob s))) = None"
  proof (cases "sd (glob s) (fst (findNextAvailableLog e (nextDataLogNumber (settings (glob s))) ''dataLog'' (glob s)))")
    case None
    then show ?thesis .
  next
    case (Some f)
    then show ?thesis
      using assms by (fastforce simp add: nextUnused_def bytesIntact_def split_beta)
  qed
qed

lemma beginDataLogging_online:
  assumes "online_microSD (glob s)" "logData (settings (glob s))" "\<not> halted (logNameStep e s)"
  shows "beginDataLogging e s =
     (if fileOpenOk e (length (trace (logNameStep e s)))
      then assign (\<lambda>gl. gl\<lparr>online_dataLogging := True\<rparr>) (updateDataFileCreate e (openStep e s))
      else assign (\<lambda>gl. gl\<lparr>online_dataLogging := False\<rparr>)
             (emit (Print ''Failed to create sensor data file'') e (openStep e s)))"
proof -
  have h: "\<not> halted (openStep e s)"
    using assms(3) by (simp add: openStep_def del: logNameStep_simps)
  have r: "fst (sd_open (gnssDataFileName (glob (logNameStep e s))) appendCreate e (logNameStep e s)) =
           fileOpenOk e (length (trace (logNameStep e s)))"
    by (rule sd_open_result)
  have run: "\<not> halted s"
    using assms(3) by simp
  have "beginDataLogging e s =
     (let (r, s2) = sd_open (gnssDataFileName (glob (logNameStep e s))) appendCreate e (logNameStep e s)
      in if r = False
         then run [emit (Print ''Failed to create sensor data file'') e,
                   assign (\<lambda>gl. gl\<lparr>online_dataLogging := False\<rparr>)] s2
         else run [updateDataFileCreate e,
                   assign (\<lambda>gl. gl\<lparr>online_dataLogging := True\<rparr>)] s2)"
    using assms run
    by (simp add: beginDataLogging_def openLogFile_def appendCreate_def del: logNameStep_simps)
  then show ?thesis
    using h r by (simp add: Let_def split_beta openStep_def del: logNameStep_simps)
qed

lemma beginDataLogging_overrun:
  assumes "online_microSD (glob s)" "logData (settings (glob s))" "\<not> halted s"
    "(gnssDataFileName (glob s) = [] \<or> openNewLogFile (settings (glob s)))" "\<not> nameFits e s"
  shows "beginDataLogging e s = allocateLogName e s"
  using assms by (simp add: beginDataLogging_def logNameStep_def)

lemma sd_open_appendCreate:
  "trace (snd (sd_open name appendCreate e s)) =
     trace s @ [Ev_open name appendCreate (fileOpenOk e (length (trace s)))]"
  "gnssDataFileName (glob (snd (sd_open name appendCreate e s))) = gnssDataFileName (glob s)"
  "fileOpenOk e (length (trace s)) \<Longrightarrow>
     gnssDataFile (glob (snd (sd_open name appendCreate e s))) = Some (name, appendCreate)"
  "bytesIntact (glob s) (glob (snd (sd_open name appendCreate e s)))"
proof -
  show "trace (snd (sd_open name appendCreate e s)) =
     trace s @ [Ev_open name appendCreate (fileOpenOk e (length (trace s)))]"
    by (simp add: sd_open_result)
  show "gnssDataFileName (glob (snd (sd_open name appendCreate e s))) = gnssDataFileName (glob s)"
    by (simp add: sd_open_glob open_file_def)
  show "gnssDataFile (glob (snd (sd_open name appendCreate e s))) = Some (name, appendCreate)"
    if "fileOpenOk e (length (trace s))"
    using that by (simp add: sd_open_glob sd_open_result open_file_def)
  show "bytesIntact (glob s) (glob (snd (sd_open name appendCreate e s)))"
    by (rule bytesIntact_sd_open) (simp add: appendCreate_def)
qed

lemma openStep_simps [simp]:
  "halted (openStep e s) = halted (logNameStep e s)"
  "trace (openStep e s) =
     trace (logNameStep e s)
       @ [Ev_open (gnssDataFileName (glob (logNameStep e s))) appendCreate
            (fileOpenOk e (length (trace (logNameStep e s))))]"
  "gnssDataFileName (glob (openStep e s)) = gnssDataFileName (glob (logNameStep e s))"
  "fileOpenOk e (length (trace (logNameStep e s))) \<Longrightarrow>
     gnssDataFile (glob (openStep e s)) = Some (gnssDataFileName (glob (logNameStep e s)), appendCreate)"
  "bytesIntact (glob (logNameStep e s)) (glob (openStep e s))"
  unfolding openStep_def
  by (simp_all only: sd_open_appendCreate sd_call_halted)

lemma openStep_creates:
  assumes "fileOpenOk e (length (trace (logNameStep e s)))"
    "sd (glob (logNameStep e s)) (gnssDataFileName (glob (logNameStep e s))) = None"
  shows "sd (glob (openStep e s)) (gnssDataFileName (glob (logNameStep e s))) = Some new_file"
  using assms by (simp add: openStep_def sd_open_glob sd_open_result open_file_def)

lemma beginDataLogging_halted:
  assumes "\<not> halted s"
  shows "halted (beginDataLogging e s) =
     (online_microSD (glob s) \<and> logData (settings (glob s)) \<and> (gnssDataFileName (glob s) = [] \<or> openNewLogFile (settings (glob s))) \<and> \<not> nameFits e s)"
proof (cases "online_microSD (glob s) \<and> logData (settings (glob s))")
  case False
  then show ?thesis
    using beginDataLogging_offline [of s e] assms by auto
next
  case True
  show ?thesis
  proof (cases "halted (logNameStep e s)")
    case True
    then show ?thesis
      using beginDataLogging_overrun [of s e] \<open>online_microSD (glob s) \<and> logData (settings (glob s))\<close> assms
      by auto
  next
    case False
    then show ?thesis
      using beginDataLogging_online [of s e] True assms by auto
  qed
qed

text \<open>C6 (as the code has it). With the card online and logging enabled,
  \<^verbatim>\<open>beginDataLogging\<close> allocates a file name (it calls \<^verbatim>\<open>findNextAvailableLog\<close>) exactly when no
  name is recorded or \<^verbatim>\<open>openNewLogFile\<close> is set. When \<^verbatim>\<open>findNextAvailableLog\<close> returns, as the
  spec says of it, a name that fits the buffer and that no file of the card has, scanning
  without changing the files, the recorded name becomes that name: it is unused on the card at
  the call, so it differs from the name of the file used before the sleep, and a successful open
  creates it empty. Otherwise the recorded name is kept. In each of these cases there is one
  call of \<^verbatim>\<open>open\<close>, on the recorded name, with \<^verbatim>\<open>O_CREAT | O_APPEND | O_WRITE\<close>; when it
  succeeds the handle is open on that name and logging is online; and every file that was on the
  card when \<^verbatim>\<open>beginDataLogging\<close> was called is still there with its bytes. A name that does not
  fit the buffer ends the run at the \<^verbatim>\<open>strcpy\<close>, before any open. With the card offline or
  logging disabled nothing is allocated, nothing is opened, and name, handle and card are left
  as they are.\<close>

theorem C6_beginDataLogging:
  "\<not> halted s \<longrightarrow>
     (online_microSD (glob s) \<and> logData (settings (glob s)) \<longrightarrow>
        allocates e s = (gnssDataFileName (glob s) = [] \<or> openNewLogFile (settings (glob s)))
        \<and> ((gnssDataFileName (glob s) = [] \<or> openNewLogFile (settings (glob s))) \<and> nextUnused e (glob s) \<longrightarrow>
             gnssDataFileName (glob (beginDataLogging e s)) = fst (findNextAvailableLog e (nextDataLogNumber (settings (glob s))) ''dataLog'' (glob s))
             \<and> sd (glob s) (gnssDataFileName (glob (beginDataLogging e s))) = None
             \<and> (sd (glob s) (gnssDataFileName (glob s)) \<noteq> None \<longrightarrow>
                  gnssDataFileName (glob (beginDataLogging e s)) \<noteq> gnssDataFileName (glob s))
             \<and> (fileOpenOk e (length (trace (logNameStep e s))) \<longrightarrow>
                  map_option bytes (sd (glob (beginDataLogging e s)) (gnssDataFileName (glob (beginDataLogging e s)))) = Some []))
        \<and> (\<not> (gnssDataFileName (glob s) = [] \<or> openNewLogFile (settings (glob s))) \<longrightarrow> gnssDataFileName (glob (beginDataLogging e s)) = gnssDataFileName (glob s))
        \<and> (((gnssDataFileName (glob s) = [] \<or> openNewLogFile (settings (glob s))) \<longrightarrow> nextUnused e (glob s)) \<longrightarrow>
             \<not> halted (beginDataLogging e s)
             \<and> openCalls (newEvents s (beginDataLogging e s)) =
                 [(gnssDataFileName (glob (beginDataLogging e s)), {O_CREAT, O_APPEND, O_WRITE},
                   fileOpenOk e (length (trace (logNameStep e s))))]
             \<and> (fileOpenOk e (length (trace (logNameStep e s))) \<longrightarrow>
                  gnssDataFile (glob (beginDataLogging e s)) =
                    Some (gnssDataFileName (glob (beginDataLogging e s)), {O_CREAT, O_APPEND, O_WRITE})
                  \<and> online_dataLogging (glob (beginDataLogging e s)))
             \<and> bytesIntact (glob s) (glob (beginDataLogging e s)))
        \<and> ((gnssDataFileName (glob s) = [] \<or> openNewLogFile (settings (glob s))) \<and> \<not> nameFits e s \<longrightarrow>
             halted (beginDataLogging e s)
             \<and> newEvents s (beginDataLogging e s) = [Ev_findNextAvailableLog, Ev_strcpy_overrun]))
   \<and> (\<not> (online_microSD (glob s) \<and> logData (settings (glob s))) \<longrightarrow>
        \<not> allocates e s \<and> newEvents s (beginDataLogging e s) = []
        \<and> gnssDataFileName (glob (beginDataLogging e s)) = gnssDataFileName (glob s)
        \<and> gnssDataFile (glob (beginDataLogging e s)) = gnssDataFile (glob s)
        \<and> sd (glob (beginDataLogging e s)) = sd (glob s))"
proof (intro impI conjI)
  assume run: "\<not> halted s" and off: "\<not> (online_microSD (glob s) \<and> logData (settings (glob s)))"
  note eq = beginDataLogging_offline [OF off, of e]
  show "\<not> allocates e s" "newEvents s (beginDataLogging e s) = []"
    "gnssDataFileName (glob (beginDataLogging e s)) = gnssDataFileName (glob s)"
    "gnssDataFile (glob (beginDataLogging e s)) = gnssDataFile (glob s)"
    "sd (glob (beginDataLogging e s)) = sd (glob s)"
    unfolding eq allocates_def by (simp_all add: newEvents_def)
next
  assume run: "\<not> halted s" and on: "online_microSD (glob s) \<and> logData (settings (glob s))"
  show "allocates e s = (gnssDataFileName (glob s) = [] \<or> openNewLogFile (settings (glob s)))"
  proof (cases "halted (logNameStep e s)")
    case True
    then have "beginDataLogging e s = allocateLogName e s" "(gnssDataFileName (glob s) = [] \<or> openNewLogFile (settings (glob s)))"
      using beginDataLogging_overrun [of s e] on run by auto
    then show ?thesis
      by (simp add: allocates_def newEvents_def)
  next
    case False
    from updateDataFileCreate_events [of e "openStep e s"]
    obtain evs where evs: "trace (updateDataFileCreate e (openStep e s)) = trace (openStep e s) @ evs"
      "Ev_findNextAvailableLog \<notin> set evs"
      by blast
    show ?thesis
      unfolding allocates_def beginDataLogging_online [OF conjunct1 [OF on] conjunct2 [OF on] False]
      using evs by (simp add: newEvents_def)
  qed
next
  assume run: "\<not> halted s" and on: "online_microSD (glob s) \<and> logData (settings (glob s))"
    and over: "(gnssDataFileName (glob s) = [] \<or> openNewLogFile (settings (glob s))) \<and> \<not> nameFits e s"
  have eq: "beginDataLogging e s = allocateLogName e s"
    using beginDataLogging_overrun [of s e] on run over by blast
  show "halted (beginDataLogging e s)" "newEvents s (beginDataLogging e s) = [Ev_findNextAvailableLog, Ev_strcpy_overrun]"
    unfolding eq using over by (simp_all add: newEvents_def)
next
  assume run: "\<not> halted s" and on: "online_microSD (glob s) \<and> logData (settings (glob s))"
    and reuse: "\<not> (gnssDataFileName (glob s) = [] \<or> openNewLogFile (settings (glob s)))"
  have h: "\<not> halted (logNameStep e s)"
    using run reuse by simp
  show "gnssDataFileName (glob (beginDataLogging e s)) = gnssDataFileName (glob s)"
    unfolding beginDataLogging_online [OF conjunct1 [OF on] conjunct2 [OF on] h]
    using h reuse by (simp del: logNameStep_simps(1) add: logNameStep_simps(3) [OF h])
next
  assume run: "\<not> halted s" and on: "online_microSD (glob s) \<and> logData (settings (glob s))"
    and ok: "(gnssDataFileName (glob s) = [] \<or> openNewLogFile (settings (glob s))) \<longrightarrow> nextUnused e (glob s)"
  have h: "\<not> halted (logNameStep e s)"
    using run ok nextUnused_fits [of e s] by auto
  note eq = beginDataLogging_online [OF conjunct1 [OF on] conjunct2 [OF on] h]
  from updateDataFileCreate_events [of e "openStep e s"]
  obtain evs where evs: "trace (updateDataFileCreate e (openStep e s)) = trace (openStep e s) @ evs"
    "openCalls evs = []"
    by blast
  have name: "gnssDataFileName (glob (beginDataLogging e s)) = gnssDataFileName (glob (logNameStep e s))"
    unfolding eq by simp
  show "\<not> halted (beginDataLogging e s)"
    unfolding eq using h by (simp del: logNameStep_simps(1))
  show "openCalls (newEvents s (beginDataLogging e s)) =
            [(gnssDataFileName (glob (beginDataLogging e s)), {O_CREAT, O_APPEND, O_WRITE},
              fileOpenOk e (length (trace (logNameStep e s))))]"
    unfolding name unfolding eq using evs by (simp add: newEvents_def appendCreate_def)
  have "bytesIntact (glob s) (glob (logNameStep e s))"
    using ok nextUnused_intact [of e s] logNameStep_reuse [of s e] by auto
  moreover have "bytesIntact (glob (logNameStep e s)) (glob (beginDataLogging e s))"
    unfolding eq
    using bytesIntact_trans [OF openStep_simps(5) bytesIntact_updateDataFileCreate, of e s e]
      openStep_simps(5) [of e s]
    by (simp add: bytesIntact_def)
  ultimately show "bytesIntact (glob s) (glob (beginDataLogging e s))"
    by (rule bytesIntact_trans)
  assume opn: "fileOpenOk e (length (trace (logNameStep e s)))"
  show "gnssDataFile (glob (beginDataLogging e s)) =
               Some (gnssDataFileName (glob (beginDataLogging e s)), {O_CREAT, O_APPEND, O_WRITE})"
    unfolding name unfolding eq using opn openStep_simps(4) [OF opn] by (simp add: appendCreate_def)
  show "online_dataLogging (glob (beginDataLogging e s))"
    unfolding eq using opn by simp
next
  assume run: "\<not> halted s" and on: "online_microSD (glob s) \<and> logData (settings (glob s))"
    and new: "(gnssDataFileName (glob s) = [] \<or> openNewLogFile (settings (glob s))) \<and> nextUnused e (glob s)"
  have h: "\<not> halted (logNameStep e s)"
    using run new nextUnused_fits [of e s] by auto
  note eq = beginDataLogging_online [OF conjunct1 [OF on] conjunct2 [OF on] h]
  have step: "gnssDataFileName (glob (logNameStep e s)) = fst (findNextAvailableLog e (nextDataLogNumber (settings (glob s))) ''dataLog'' (glob s))"
    using new by (simp add: logNameStep_simps(3) [OF h])
  have name: "gnssDataFileName (glob (beginDataLogging e s)) = fst (findNextAvailableLog e (nextDataLogNumber (settings (glob s))) ''dataLog'' (glob s))"
    unfolding eq using step by simp
  show "gnssDataFileName (glob (beginDataLogging e s)) = fst (findNextAvailableLog e (nextDataLogNumber (settings (glob s))) ''dataLog'' (glob s))"
    by (rule name)
  show unused: "sd (glob s) (gnssDataFileName (glob (beginDataLogging e s))) = None"
    unfolding name using new by (intro nextUnused_fresh(1)) simp
  show "gnssDataFileName (glob (beginDataLogging e s)) \<noteq> gnssDataFileName (glob s)"
    if "sd (glob s) (gnssDataFileName (glob s)) \<noteq> None"
    using that unused by auto
  show "map_option bytes (sd (glob (beginDataLogging e s)) (gnssDataFileName (glob (beginDataLogging e s)))) = Some []"
    if opn: "fileOpenOk e (length (trace (logNameStep e s)))"
  proof -
    have "sd (glob (logNameStep e s)) (gnssDataFileName (glob (logNameStep e s))) = None"
      unfolding step using new nextUnused_fresh(2) [of e s] by blast
    from openStep_creates [OF opn this]
    have "sd (glob (openStep e s)) (fst (findNextAvailableLog e (nextDataLogNumber (settings (glob s))) ''dataLog'' (glob s))) = Some new_file"
      unfolding step .
    with bytesIntact_updateDataFileCreate [of "openStep e s" e]
    obtain f' where "sd (glob (updateDataFileCreate e (openStep e s))) (fst (findNextAvailableLog e (nextDataLogNumber (settings (glob s))) ''dataLog'' (glob s))) = Some f'"
      "bytes f' = bytes new_file"
      unfolding bytesIntact_def by blast
    then show ?thesis
      unfolding name unfolding eq using opn by (simp add: new_file_def)
  qed
qed

lemma beginSD_chdir_online:
  "\<not> halted s \<Longrightarrow>
   online_microSD (glob (beginSD_chdir e s)) = sdChdirOk e (length (trace s))
   \<and> \<not> halted (beginSD_chdir e s)"
  by (simp add: beginSD_chdir_def sd_chdir_def Let_def)

lemma beginSD_retry_online:
  "\<not> halted s \<Longrightarrow>
   online_microSD (glob (beginSD_retry e s)) =
     (sdBeginOk e (length (trace s)) \<and> sdChdirOk e (Suc (length (trace s))))
   \<and> \<not> halted (beginSD_retry e s)"
  using beginSD_chdir_online [of "snd (sd_begin e s)" e]
  by (auto simp add: beginSD_retry_def sd_begin_def Let_def)

lemma beginSD_begin_offline:
  assumes "(\<forall>n. \<not> sdBeginOk e n) \<or> (\<forall>n. \<not> sdChdirOk e n)" "\<not> halted s"
    "\<not> halted (beginSD_begin e s)"
  shows "\<not> online_microSD (glob (beginSD_begin e s))"
proof (cases "sdBeginOk e (length (trace s))")
  case True
  then show ?thesis
    using assms(1,2) beginSD_chdir_online [of "snd (sd_begin e s)" e]
    by (auto simp add: beginSD_begin_def sd_begin_def Let_def)
next
  case False
  define s2 where "s2 = pollDelay 250 e (snd (sd_begin e s))"
  have eq: "beginSD_begin e s = run [beginSD_retry e] s2"
    using False assms(2) by (simp add: beginSD_begin_def sd_begin_def Let_def s2_def)
  have "\<not> halted s2"
    using assms(3) unfolding eq by (auto split: if_splits)
  then show ?thesis
    unfolding eq using beginSD_retry_online [of s2 e] assms(1) by auto
qed

lemma beginSD_offline:
  assumes "(\<forall>n. \<not> sdBeginOk e n) \<or> (\<forall>n. \<not> sdChdirOk e n) \<or> \<not> enableSD (settings (glob s))"
    "\<not> halted s" "\<not> halted (beginSD e s)"
  shows "\<not> online_microSD (glob (beginSD e s))"
proof (cases "enableSD (settings (glob s))")
  case False
  then show ?thesis
    using assms(2) by (simp add: beginSD_def)
next
  case True
  define s4 where "s4 = emit (Call ''microSDPowerOn()'') e
     (emit (Call ''digitalWrite(PIN_MICROSD_CHIP_SELECT, HIGH)'') e
       (emit (Call ''pinMode(PIN_MICROSD_CHIP_SELECT, OUTPUT)'') e
         (emit (Call ''pinMode(PIN_MICROSD_POWER, OUTPUT)'') e s)))"
  define s5 where "s5 = pollDelay 10 e s4"
  have eq: "beginSD e s = run [beginSD_begin e] s5"
    using True assms(2) by (simp add: beginSD_def s4_def s5_def)
  have s5: "\<not> halted s5"
    using assms(3) unfolding eq by (auto split: if_splits)
  then have "beginSD e s = beginSD_begin e s5"
    unfolding eq by simp
  then show ?thesis
    using beginSD_begin_offline [of e s5] assms(1,3) s5 True by auto
qed

text \<open>C6 as stated fails: with the card offline no name is allocated although none is recorded
  and \<^verbatim>\<open>openNewLogFile\<close> is set, and no file is opened.\<close>

theorem C6_counterexample:
  "\<not> halted sys0 \<and> gnssDataFileName (glob sys0) = [] \<and> openNewLogFile (settings (glob sys0))
   \<and> \<not> allocates env0 sys0
   \<and> openCalls (newEvents sys0 (beginDataLogging env0 sys0)) = []
   \<and> gnssDataFileName (glob (beginDataLogging env0 sys0)) = []
   \<and> gnssDataFile (glob (beginDataLogging env0 sys0)) = None"
  by (simp add: allocates_def newEvents_def beginDataLogging_def sys0_def globals0_def settings0_def)

lemma woken_run:
  "newEvents sys_woken (beginDataLogging env_next sys_woken) =
     [Ev_findNextAvailableLog, Ev_open ''dataLog00002.ubx'' {O_CREAT, O_APPEND, O_WRITE} True,
      Ev_getTime, Ev_timestamp {T_CREATE} (2026, 11, 2, 10, 21, 0) True]"
  "sd (glob (beginDataLogging env_next sys_woken)) ''dataLog00001.ubx'' = Some logfile1"
  "sd (glob (beginDataLogging env_next sys_woken)) ''dataLog00002.ubx'' =
     Some (new_file\<lparr>t_create := Some (2026, 11, 2, 10, 21, 0)\<rparr>)"
  by (simp_all add: newEvents_def beginDataLogging_def logNameStep_def openLogFile_def
      allocateLogName_def nameFits_def sd_open_def open_file_def
      updateDataFileCreate_def rtc_getTime_def file_timestamp_def open_target_def stamp_def
      rtc_datetime_def new_file_def Let_def
      sys_woken_def globals1_def globals0_def settings0_def env_next_def env0_def)

lemma reuse_run:
  "newEvents sys_reuse (beginDataLogging env_next sys_reuse) =
     [Ev_open ''dataLog00001.ubx'' {O_CREAT, O_APPEND, O_WRITE} True,
      Ev_getTime, Ev_timestamp {T_CREATE} (2026, 11, 2, 10, 21, 0) True]"
  "sd (glob (beginDataLogging env_next sys_reuse)) ''dataLog00001.ubx'' =
     Some (logfile1\<lparr>t_create := Some (2026, 11, 2, 10, 21, 0)\<rparr>)"
  by (simp_all add: newEvents_def beginDataLogging_def logNameStep_def openLogFile_def
      allocateLogName_def nameFits_def sd_open_def open_file_def
      updateDataFileCreate_def rtc_getTime_def file_timestamp_def open_target_def stamp_def
      rtc_datetime_def new_file_def Let_def
      sys_reuse_def globals1_def globals0_def settings0_def env_next_def env0_def)

theorem C6_witness:
  "\<not> halted sys_woken \<and> online_microSD (glob sys_woken) \<and> logData (settings (glob sys_woken))
   \<and> openNewLogFile (settings (glob sys_woken))
   \<and> gnssDataFileName (glob sys_woken) = ''dataLog00001.ubx''
   \<and> nextUnused env_next (glob sys_woken)
   \<and> allocates env_next sys_woken
   \<and> gnssDataFileName (glob (beginDataLogging env_next sys_woken)) = ''dataLog00002.ubx''
   \<and> openCalls (newEvents sys_woken (beginDataLogging env_next sys_woken)) =
        [(''dataLog00002.ubx'', {O_CREAT, O_APPEND, O_WRITE}, True)]
   \<and> map_option bytes (sd (glob (beginDataLogging env_next sys_woken)) ''dataLog00001.ubx'') = Some [0xB5, 0x62]
   \<and> map_option bytes (sd (glob (beginDataLogging env_next sys_woken)) ''dataLog00002.ubx'') = Some []
   \<and> \<not> halted sys_reuse \<and> online_microSD (glob sys_reuse) \<and> logData (settings (glob sys_reuse))
   \<and> \<not> openNewLogFile (settings (glob sys_reuse))
   \<and> \<not> allocates env_next sys_reuse
   \<and> gnssDataFileName (glob (beginDataLogging env_next sys_reuse)) = ''dataLog00001.ubx''
   \<and> openCalls (newEvents sys_reuse (beginDataLogging env_next sys_reuse)) =
        [(''dataLog00001.ubx'', {O_CREAT, O_APPEND, O_WRITE}, True)]
   \<and> map_option bytes (sd (glob (beginDataLogging env_next sys_reuse)) ''dataLog00001.ubx'') = Some [0xB5, 0x62]
   \<and> \<not> halted sys0 \<and> \<not> online_microSD (glob sys0)
   \<and> newEvents sys0 (beginDataLogging env0 sys0) = []"
proof -
  have a: "\<not> halted sys_woken" "online_microSD (glob sys_woken) \<and> logData (settings (glob sys_woken))"
    "openNewLogFile (settings (glob sys_woken))" "gnssDataFileName (glob sys_woken) = ''dataLog00001.ubx''"
    by (simp_all add: sys_woken_def globals1_def globals0_def settings0_def)
  have b: "\<not> halted sys_reuse" "online_microSD (glob sys_reuse) \<and> logData (settings (glob sys_reuse))"
    "\<not> openNewLogFile (settings (glob sys_reuse))" "gnssDataFileName (glob sys_reuse) = ''dataLog00001.ubx''"
    by (simp_all add: sys_reuse_def globals1_def globals0_def settings0_def)
  have c: "\<not> halted sys0" "\<not> (online_microSD (glob sys0) \<and> logData (settings (glob sys0)))"
    "\<not> online_microSD (glob sys0)"
    by (simp_all add: sys0_def globals0_def)
  have d: "fst (findNextAvailableLog env_next n p gl) = ''dataLog00002.ubx''" for n p gl
    by (simp add: env_next_def)
  have u: "nextUnused env_next (glob sys_woken)"
    by (simp add: nextUnused_def env_next_def env0_def sys_woken_def globals1_def globals0_def
        settings0_def)
  have w1: "allocates env_next sys_woken
     \<and> gnssDataFileName (glob (beginDataLogging env_next sys_woken)) = ''dataLog00002.ubx''"
    using C6_beginDataLogging [of sys_woken env_next, THEN mp, OF a(1), THEN conjunct1, THEN mp, OF a(2)]
      a(3) d u
    by simp
  have w2: "\<not> allocates env_next sys_reuse
     \<and> gnssDataFileName (glob (beginDataLogging env_next sys_reuse)) = ''dataLog00001.ubx''"
    using C6_beginDataLogging [of sys_reuse env_next, THEN mp, OF b(1), THEN conjunct1, THEN mp, OF b(2)]
      b(3,4)
    by simp
  have w3: "newEvents sys0 (beginDataLogging env0 sys0) = []"
    using C6_beginDataLogging [of sys0 env0, THEN mp, OF c(1), THEN conjunct2, THEN mp, OF c(2)]
    by simp
  have w4: "openCalls (newEvents sys_woken (beginDataLogging env_next sys_woken)) =
        [(''dataLog00002.ubx'', {O_CREAT, O_APPEND, O_WRITE}, True)]"
    "map_option bytes (sd (glob (beginDataLogging env_next sys_woken)) ''dataLog00001.ubx'') = Some [0xB5, 0x62]"
    "map_option bytes (sd (glob (beginDataLogging env_next sys_woken)) ''dataLog00002.ubx'') = Some []"
    by (simp_all add: woken_run logfile1_def new_file_def)
  have w5: "openCalls (newEvents sys_reuse (beginDataLogging env_next sys_reuse)) =
        [(''dataLog00001.ubx'', {O_CREAT, O_APPEND, O_WRITE}, True)]"
    "map_option bytes (sd (glob (beginDataLogging env_next sys_reuse)) ''dataLog00001.ubx'') = Some [0xB5, 0x62]"
    by (simp_all add: reuse_run logfile1_def)
  show ?thesis
    using a b c u w1 w2 w3 w4 w5 by blast
qed

lemma no_irq_tick: "\<forall>n. \<not> lowPowerIRQ e n \<Longrightarrow> tick e n gl = gl"
  by (simp add: tick_def)

lemma pollDelay_quiet:
  assumes "\<forall>n. \<not> lowPowerIRQ e n"
  shows "\<not> lowPowerSeen (glob s) \<Longrightarrow> \<not> halted s \<Longrightarrow>
         glob (pollDelay n e s) = glob s \<and> \<not> halted (pollDelay n e s)"
  using assms
  by (induction n arbitrary: s) (simp_all add: checkpoint_def Let_def no_irq_tick)

lemma pollDelay_numeral:
  "pollDelay (numeral k) e s = pollDelay (pred_numeral k) e (run [checkpoint e, emit (Delay 1) e] s)"
  by (simp add: numeral_eq_Suc)

lemma nofile_run:
  "\<not> halted (beginDataLogging env_nofile sys_woken)"
  "\<not> online_dataLogging (glob (beginDataLogging env_nofile sys_woken))"
  "newEvents sys_woken (beginDataLogging env_nofile sys_woken) =
     [Ev_findNextAvailableLog, Ev_open ''dataLog00002.ubx'' {O_CREAT, O_APPEND, O_WRITE} False,
      Print ''Failed to create sensor data file'']"
  by (simp_all add: newEvents_def beginDataLogging_def logNameStep_def openLogFile_def
      allocateLogName_def nameFits_def sd_open_def Let_def
      sys_woken_def globals1_def globals0_def settings0_def env_nofile_def env_next_def env0_def)

lemma nocard_run:
  "\<not> halted (beginSD env_nocard sys_sd)"
proof -
  have irq: "\<forall>n. \<not> lowPowerIRQ env_nocard n"
    by (simp add: env_nocard_def env0_def)
  have fail: "sdBeginOk env_nocard n = False" for n
    by (simp add: env_nocard_def env0_def)
  have sd: "enableSD (settings (glob sys_sd))" "\<not> lowPowerSeen (glob sys_sd)" "\<not> halted sys_sd"
    by (simp_all add: sys_sd_def sys0_def globals0_def settings0_def)
  show ?thesis
    using sd
    by (simp add: beginSD_def beginSD_begin_def beginSD_retry_def sd_begin_def Let_def fail
        pollDelay_quiet [OF irq] no_irq_tick [OF irq])
qed

lemma lost_run:
  "halted (beginSD env0 sys_lost)"
  "newEvents sys_lost (beginSD env0 sys_lost) =
     [Call ''pinMode(PIN_MICROSD_POWER, OUTPUT)'', Call ''pinMode(PIN_MICROSD_CHIP_SELECT, OUTPUT)'',
      Call ''digitalWrite(PIN_MICROSD_CHIP_SELECT, HIGH)'', Call ''microSDPowerOn()'',
      Poll True, Ev_powerDown]"
  by (simp_all add: newEvents_def beginSD_def pollDelay_numeral checkpoint_def Let_def call_def
      tick_def lowPowerISR_def sys_lost_def sys0_def globals0_def settings0_def env0_def)

lemma quiet_tick: "returnsQuietly e \<Longrightarrow> tick e n gl = gl"
  by (simp add: returnsQuietly_def tick_def)

lemma quiet_nameFits: "returnsQuietly e \<Longrightarrow> nameFits e s"
  by (simp add: returnsQuietly_def nameFits_def)

lemma quiet_emit [simp]: "returnsQuietly e \<Longrightarrow> quietState (emit ev e s) = quietState s"
  by (simp add: quietState_def quiet_tick)

lemma quiet_assign [simp]:
  "lowPowerSeen (f (glob s)) = lowPowerSeen (glob s) \<Longrightarrow> quietState (assign f s) = quietState s"
  by (simp add: quietState_def)

lemma quiet_run:
  assumes "\<And>f s. f \<in> set fs \<Longrightarrow> quietState s \<Longrightarrow> quietState (f s)" "quietState s"
  shows "quietState (run fs s)"
  using assms by (rule run_invariant)

lemma quiet_checkpoint [simp]:
  "returnsQuietly e \<Longrightarrow> quietState s \<Longrightarrow> quietState (checkpoint e s)"
  by (simp add: quietState_def checkpoint_def Let_def quiet_tick)

lemma quiet_startupGuard [simp]:
  "returnsQuietly e \<Longrightarrow> quietState s \<Longrightarrow> quietState (startupGuard e s)"
  by (simp add: quietState_def startupGuard_def Let_def quiet_tick returnsQuietly_def)

lemma quiet_loadSettings [simp]:
  assumes "returnsQuietly e" "quietState s"
  shows "quietState (call Ev_loadSettings (loadSettings e) e s)"
proof -
  from assms(1) obtain gl' where "loadSettings e (glob s) = Some gl'" "lowPowerSeen gl' = lowPowerSeen (glob s)"
    unfolding returnsQuietly_def by blast
  then show ?thesis
    using assms by (simp add: quietState_def call_returns quiet_tick)
qed

lemma quiet_callBeginSensors [simp]:
  assumes "returnsQuietly e" "quietState s"
  shows "quietState (callBeginSensors e s)"
    and "online_dataLogging (glob (callBeginSensors e s)) = online_dataLogging (glob s)"
proof -
  from assms(1) obtain r gl' where "beginSensors e (glob s) = Some (r, gl')"
    "lowPowerSeen gl' = lowPowerSeen (glob s)" "online_dataLogging gl' = online_dataLogging (glob s)"
    unfolding returnsQuietly_def by blast
  then show "quietState (callBeginSensors e s)"
    and "online_dataLogging (glob (callBeginSensors e s)) = online_dataLogging (glob s)"
    using assms by (simp_all add: quietState_def callBeginSensors_def Let_def quiet_tick)
qed

lemma quiet_pollDelay [simp]:
  "returnsQuietly e \<Longrightarrow> quietState s \<Longrightarrow> quietState (pollDelay n e s)"
  using pollDelay_quiet [of e s n] by (simp add: quietState_def returnsQuietly_def)

lemma quiet_beginSD [simp]:
  assumes "returnsQuietly e" "quietState s"
  shows "quietState (beginSD e s)"
proof -
  have chdir: "quietState (beginSD_chdir e s')" if "quietState s'" for s'
    using that assms(1) by (simp add: beginSD_chdir_def sd_chdir_def Let_def quietState_def quiet_tick)
  have retry: "quietState (beginSD_retry e s')" if "quietState s'" for s'
    using chdir [of "snd (sd_begin e s')"] that assms(1)
    by (auto simp add: beginSD_retry_def sd_begin_def Let_def quietState_def quiet_tick)
  have bgn: "quietState (beginSD_begin e s')" if "quietState s'" for s'
  proof (cases "sdBeginOk e (length (trace s'))")
    case True
    then show ?thesis
      using chdir [of "snd (sd_begin e s')"] that assms(1)
      by (auto simp add: beginSD_begin_def sd_begin_def Let_def quietState_def quiet_tick)
  next
    case False
    have "quietState (snd (sd_begin e s'))"
      using that assms(1) by (simp add: sd_begin_def Let_def quietState_def quiet_tick)
    then have "quietState (pollDelay 250 e (snd (sd_begin e s')))"
      using assms(1) by simp
    from retry [OF this] this show ?thesis
      using False that by (simp add: beginSD_begin_def sd_begin_def Let_def quietState_def)
  qed
  show ?thesis
    unfolding beginSD_def using assms(2)
    by (rule quiet_run [rotated]) (auto simp add: assms(1) bgn intro!: quiet_run)
qed

lemma lowPowerSeen_file_ops [simp]:
  "lowPowerSeen (open_file name fl gl) = lowPowerSeen gl"
  "returnsQuietly e \<Longrightarrow> lowPowerSeen (glob (snd (sd_open name fl e s))) = lowPowerSeen (glob s)"
  "returnsQuietly e \<Longrightarrow> lowPowerSeen (glob (snd (file_timestamp tf dt e s))) = lowPowerSeen (glob s)"
  "returnsQuietly e \<Longrightarrow> lowPowerSeen (glob (rtc_getTime e s)) = lowPowerSeen (glob s)"
  "returnsQuietly e \<Longrightarrow> lowPowerSeen (glob (allocateLogName e s)) = lowPowerSeen (glob s)"
  by (simp_all add: open_file_def sd_open_glob file_timestamp_def rtc_getTime_def allocateLogName_def
      quiet_tick quiet_nameFits [unfolded nameFits_def] Let_def split_beta returnsQuietly_def [of e]
      split: option.splits)

lemma quiet_updateDataFileCreate [simp]:
  assumes "returnsQuietly e" "quietState s"
  shows "quietState (updateDataFileCreate e s)"
  using assms
  by (simp add: updateDataFileCreate_def Let_def split_beta quietState_def quiet_tick)

lemma quiet_beginDataLogging [simp]:
  assumes "returnsQuietly e" "quietState s"
  shows "quietState (beginDataLogging e s)"
proof (cases "online_microSD (glob s) \<and> logData (settings (glob s))")
  case False
  then show ?thesis
    using assms beginDataLogging_offline [of s e] by simp
next
  case True
  have 1: "quietState (logNameStep e s)"
    using assms by (simp add: logNameStep_def quietState_def quiet_nameFits)
  then have 2: "quietState (openStep e s)"
    using assms(1) by (simp add: openStep_def quietState_def del: logNameStep_simps)
  have run: "\<not> halted (logNameStep e s)"
    using 1 by (simp add: quietState_def del: logNameStep_simps)
  show ?thesis
    unfolding beginDataLogging_online [OF conjunct1 [OF True] conjunct2 [OF True] run]
    using 2 assms(1) by simp
qed

lemma beginDataLogging_no_open:
  assumes "\<forall>n. \<not> fileOpenOk e n" "\<not> halted (logNameStep e s)"
  shows "\<not> online_dataLogging (glob (beginDataLogging e s))"
proof (cases "online_microSD (glob s) \<and> logData (settings (glob s))")
  case False
  then show ?thesis
    using beginDataLogging_offline [of s e] by simp
next
  case True
  then show ?thesis
    using beginDataLogging_online [of s e] assms by simp
qed

lemma quiet_parts [simp]:
  assumes "returnsQuietly e" "quietState s"
  shows "quietState (startWatchdog e s)" "quietState (attachLowPowerInterrupt e s)"
    "quietState (beginQwiic e s)" "quietState (disableIMU e s)"
  using assms
  by (simp_all add: startWatchdog_def attachLowPowerInterrupt_def beginQwiic_def disableIMU_def
      quietState_def quiet_tick)

lemma checkpoint_logging:
  "returnsQuietly e \<Longrightarrow> quietState s \<Longrightarrow>
   online_dataLogging (glob (checkpoint e s)) = online_dataLogging (glob s)"
  by (simp add: checkpoint_def Let_def quietState_def)

lemma disableIMU_logging:
  "online_dataLogging (glob (disableIMU e s)) = online_dataLogging (glob s)"
  unfolding disableIMU_def
  by (rule run_invariant [where I = "\<lambda>s'. online_dataLogging (glob s') = online_dataLogging (glob s)"])
     auto

lemma setup_ola_parts:
  "setup_ola e s =
     run [checkpoint e,
          disableIMU e,
          checkpoint e,
          (\<lambda>s. if online_microSD (glob s) = True then emit (Print ''SD card online'') e s
                else emit (Print ''SD card offline'') e s),
          (\<lambda>s. if online_dataLogging (glob s) = True then emit (Print ''Data logging online'') e s
                else emit (Print ''Datalogging offline'') e s),
          (\<lambda>s. if enableTerminalOutput (settings (glob s)) = False \<and> logData (settings (glob s)) = True
                then emit (Print ''Logging to microSD card with no terminal output'') e s
                else s),
          callBeginSensors e,
          (\<lambda>s. assign (\<lambda>gl. gl\<lparr>measurementStartTime := rtcMillis e (length (trace s))\<rparr>) s),
          checkpoint e,
          emit (Call ''digitalWrite(PIN_STAT_LED, LOW)'') e]
      (run [beginDataLogging e]
       (run [emit (Call ''pinMode(PIN_POWER_LOSS, INPUT)'') e,
          emit (Delay 1) e,
          attachLowPowerInterrupt e,
          startWatchdog e,
          emit (Call ''powerLEDOn()'') e,
          emit (Call ''pinMode(PIN_STAT_LED, OUTPUT)'') e,
          emit (Call ''digitalWrite(PIN_STAT_LED, HIGH)'') e,
          startupGuard e,
          (\<lambda>s. if 0 \<le> PIN_LOGIC_DEBUG
                then run [emit (Call ''pinMode(PIN_LOGIC_DEBUG, OUTPUT)'') e,
                          emit (Call ''digitalWrite(PIN_LOGIC_DEBUG, HIGH)'') e] s
                else s),
          emit (Call ''Serial.begin(115200)'') e,
          emit (Print []) e,
          emit (Call ''SPI.begin()'') e,
          beginSD e,
          checkpoint e,
          call Ev_loadSettings (loadSettings e) e,
          checkpoint e,
          emit (Call ''Serial.flush()'') e,
          emit (Call ''Serial.begin(settings.serialTerminalBaudRate)'') e,
          emit (Print ''Artemis OpenLog GNSS v1.1'') e,
          checkpoint e,
          beginQwiic e,
          checkpoint e,
          emit (Call ''analogReadResolution(14)'') e] s))"
  by (simp only: setup_ola_def run_append [symmetric] append.simps)

lemma setup_ola_quiet:
  assumes q: "returnsQuietly e" and s: "\<not> halted s" "\<not> lowPowerSeen (glob s)"
  shows "\<not> halted (setup_ola e s)"
    and "\<forall>n. \<not> fileOpenOk e n \<Longrightarrow> \<not> online_dataLogging (glob (setup_ola e s))"
proof -
  have "quietState (setup_ola e s)"
    unfolding setup_ola_def
    by (rule quiet_run) (auto simp add: q s quietState_def [of s] intro!: quiet_run)
  then show "\<not> halted (setup_ola e s)"
    by (simp add: quietState_def)
  assume fail: "\<forall>n. \<not> fileOpenOk e n"
  define s1 where "s1 = run [emit (Call ''pinMode(PIN_POWER_LOSS, INPUT)'') e,
          emit (Delay 1) e,
          attachLowPowerInterrupt e,
          startWatchdog e,
          emit (Call ''powerLEDOn()'') e,
          emit (Call ''pinMode(PIN_STAT_LED, OUTPUT)'') e,
          emit (Call ''digitalWrite(PIN_STAT_LED, HIGH)'') e,
          startupGuard e,
          (\<lambda>s. if 0 \<le> PIN_LOGIC_DEBUG
                then run [emit (Call ''pinMode(PIN_LOGIC_DEBUG, OUTPUT)'') e,
                          emit (Call ''digitalWrite(PIN_LOGIC_DEBUG, HIGH)'') e] s
                else s),
          emit (Call ''Serial.begin(115200)'') e,
          emit (Print []) e,
          emit (Call ''SPI.begin()'') e,
          beginSD e,
          checkpoint e,
          call Ev_loadSettings (loadSettings e) e,
          checkpoint e,
          emit (Call ''Serial.flush()'') e,
          emit (Call ''Serial.begin(settings.serialTerminalBaudRate)'') e,
          emit (Print ''Artemis OpenLog GNSS v1.1'') e,
          checkpoint e,
          beginQwiic e,
          checkpoint e,
          emit (Call ''analogReadResolution(14)'') e] s"
  have s1: "quietState s1"
    unfolding s1_def
    by (rule quiet_run) (auto simp add: q s quietState_def [of s] intro!: quiet_run)
  define s2 where "s2 = beginDataLogging e s1"
  have s2: "quietState s2 \<and> \<not> online_dataLogging (glob s2)"
    unfolding s2_def using s1 q beginDataLogging_no_open [OF fail, of s1]
    by (simp add: quietState_def [of s1] quiet_nameFits)
  have split: "setup_ola e s =
     run [checkpoint e,
          disableIMU e,
          checkpoint e,
          (\<lambda>s. if online_microSD (glob s) = True then emit (Print ''SD card online'') e s
                else emit (Print ''SD card offline'') e s),
          (\<lambda>s. if online_dataLogging (glob s) = True then emit (Print ''Data logging online'') e s
                else emit (Print ''Datalogging offline'') e s),
          (\<lambda>s. if enableTerminalOutput (settings (glob s)) = False \<and> logData (settings (glob s)) = True
                then emit (Print ''Logging to microSD card with no terminal output'') e s
                else s),
          callBeginSensors e,
          (\<lambda>s. assign (\<lambda>gl. gl\<lparr>measurementStartTime := rtcMillis e (length (trace s))\<rparr>) s),
          checkpoint e,
          emit (Call ''digitalWrite(PIN_STAT_LED, LOW)'') e] s2"
  proof -
    have "run [beginDataLogging e] s1 = beginDataLogging e s1"
      using s1 by (simp add: quietState_def)
    then show ?thesis
      unfolding setup_ola_parts s1_def [symmetric] s2_def by (rule arg_cong)
  qed
  have "quietState (setup_ola e s) \<and> \<not> online_dataLogging (glob (setup_ola e s))"
    unfolding split
    by (rule run_invariant [where I = "\<lambda>s'. quietState s' \<and> \<not> online_dataLogging (glob s')"])
       (auto simp add: q s2 checkpoint_logging disableIMU_logging split: if_splits)
  then show "\<not> online_dataLogging (glob (setup_ola e s))"
    by simp
qed

text \<open>C7. \<^verbatim>\<open>beginDataLogging\<close> returns in every case but one, which is no error of the card
  or of the file: the \<^verbatim>\<open>strcpy\<close> of a name that does not fit the buffer. With the card offline it
  sets \<^verbatim>\<open>online.dataLogging\<close> to false without calling \<^verbatim>\<open>open\<close>; when the one call of \<^verbatim>\<open>open\<close>
  fails it prints the message and sets \<^verbatim>\<open>online.dataLogging\<close> to false, with no second call,
  and returns. When \<^verbatim>\<open>beginSD\<close> returns after \<^verbatim>\<open>sd.begin\<close> or \<^verbatim>\<open>sd.chdir\<close> failed, or with the
  card disabled, \<^verbatim>\<open>online.microSD\<close> is false. \<^verbatim>\<open>beginSD\<close> and \<^verbatim>\<open>loop\<close> stop only inside
  \<^verbatim>\<open>powerDown\<close> or inside a function of the environment that never returns, and \<^verbatim>\<open>setup\<close> only
  there or at that \<^verbatim>\<open>strcpy\<close>, never after an error of the card or of the file; and without loss
  of power, with names that fit, \<^verbatim>\<open>setup\<close> runs to its end whatever the card and the file
  answer, with logging disabled when the open fails.\<close>

theorem C7_logging_errors_do_not_halt:
  "\<not> halted s \<longrightarrow>
     (halted (beginDataLogging e s) =
        (online_microSD (glob s) \<and> logData (settings (glob s)) \<and> (gnssDataFileName (glob s) = [] \<or> openNewLogFile (settings (glob s))) \<and> \<not> nameFits e s))
     \<and> (\<not> online_microSD (glob s) \<longrightarrow>
          \<not> online_dataLogging (glob (beginDataLogging e s)) \<and> newEvents s (beginDataLogging e s) = [])
     \<and> (online_microSD (glob s) \<and> logData (settings (glob s))
          \<and> ((gnssDataFileName (glob s) = [] \<or> openNewLogFile (settings (glob s))) \<longrightarrow> nameFits e s)
          \<and> \<not> fileOpenOk e (length (trace (logNameStep e s))) \<longrightarrow>
          \<not> halted (beginDataLogging e s)
          \<and> \<not> online_dataLogging (glob (beginDataLogging e s))
          \<and> openCalls (newEvents s (beginDataLogging e s)) =
               [(gnssDataFileName (glob (beginDataLogging e s)), {O_CREAT, O_APPEND, O_WRITE}, False)]
          \<and> last (newEvents s (beginDataLogging e s)) = Print ''Failed to create sensor data file'')
     \<and> (((\<forall>n. \<not> sdBeginOk e n) \<or> (\<forall>n. \<not> sdChdirOk e n) \<or> \<not> enableSD (settings (glob s)))
          \<and> \<not> halted (beginSD e s) \<longrightarrow>
          \<not> online_microSD (glob (beginSD e s)))
     \<and> (halted (beginSD e s) \<longrightarrow> isCall (last (newEvents s (beginSD e s))))
     \<and> (halted (setup_ola e s) \<longrightarrow>
          isCall (last (newEvents s (setup_ola e s)))
          \<or> last (newEvents s (setup_ola e s)) = Ev_strcpy_overrun)
     \<and> (halted (loop e s) \<longrightarrow> isCall (last (newEvents s (loop e s))))
     \<and> (returnsQuietly e \<and> \<not> lowPowerSeen (glob s) \<longrightarrow>
          \<not> halted (setup_ola e s)
          \<and> ((\<forall>n. \<not> fileOpenOk e n) \<longrightarrow> \<not> online_dataLogging (glob (setup_ola e s))))"
proof (intro impI conjI)
  assume run: "\<not> halted s"
  then show "halted (beginDataLogging e s) =
        (online_microSD (glob s) \<and> logData (settings (glob s)) \<and> (gnssDataFileName (glob s) = [] \<or> openNewLogFile (settings (glob s))) \<and> \<not> nameFits e s)"
    by (rule beginDataLogging_halted)
  show "isCall (last (newEvents s (beginSD e s)))" if "halted (beginSD e s)"
    using guardedStep_beginSD emitsOnly_beginSD run that by (rule halts_at_call)
  show "isCall (last (newEvents s (setup_ola e s)))
          \<or> last (newEvents s (setup_ola e s)) = Ev_strcpy_overrun" if "halted (setup_ola e s)"
    using guardedStep_halts [OF guardedStep_setup run that] by (simp add: stopsAt_def)
  show "isCall (last (newEvents s (loop e s)))" if "halted (loop e s)"
    using guardedStep_loop emitsOnly_loop run that by (rule halts_at_call)
  show "\<not> halted (setup_ola e s)" if "returnsQuietly e \<and> \<not> lowPowerSeen (glob s)"
    using setup_ola_quiet(1) [of e s] that run by blast
  show "\<not> online_dataLogging (glob (setup_ola e s))"
    if "returnsQuietly e \<and> \<not> lowPowerSeen (glob s)" "\<forall>n. \<not> fileOpenOk e n"
    using setup_ola_quiet(2) [of e s] that run by blast
  show "\<not> online_microSD (glob (beginSD e s))"
    if "((\<forall>n. \<not> sdBeginOk e n) \<or> (\<forall>n. \<not> sdChdirOk e n) \<or> \<not> enableSD (settings (glob s)))
          \<and> \<not> halted (beginSD e s)"
    using beginSD_offline [of e s] that run by blast
next
  assume run: "\<not> halted s" and off: "\<not> online_microSD (glob s)"
  then have eq: "beginDataLogging e s = assign (\<lambda>gl. gl\<lparr>online_dataLogging := False\<rparr>) s"
    by (intro beginDataLogging_offline) simp
  show "\<not> online_dataLogging (glob (beginDataLogging e s))" "newEvents s (beginDataLogging e s) = []"
    unfolding eq by (simp_all add: newEvents_def)
next
  assume run: "\<not> halted s"
    and fail: "online_microSD (glob s) \<and> logData (settings (glob s))
          \<and> ((gnssDataFileName (glob s) = [] \<or> openNewLogFile (settings (glob s))) \<longrightarrow> nameFits e s)
          \<and> \<not> fileOpenOk e (length (trace (logNameStep e s)))"
  have h: "\<not> halted (logNameStep e s)"
    using run fail by auto
  have eq: "beginDataLogging e s = assign (\<lambda>gl. gl\<lparr>online_dataLogging := False\<rparr>)
             (emit (Print ''Failed to create sensor data file'') e (openStep e s))"
    using beginDataLogging_online [OF _ _ h] fail by simp
  show "\<not> halted (beginDataLogging e s)"
    unfolding eq using h by (simp del: logNameStep_simps)
  show "\<not> online_dataLogging (glob (beginDataLogging e s))"
    unfolding eq by simp
  show "openCalls (newEvents s (beginDataLogging e s)) =
               [(gnssDataFileName (glob (beginDataLogging e s)), {O_CREAT, O_APPEND, O_WRITE}, False)]"
    unfolding eq using fail by (simp add: newEvents_def appendCreate_def)
  show "last (newEvents s (beginDataLogging e s)) = Print ''Failed to create sensor data file''"
    unfolding eq by (simp add: newEvents_def)
qed

lemma halting_runs:
  "halted (setup_ola env_irq sys0)" "halted (loop env_irq1 sys_attached)"
  by (simp_all add: setup_ola_def startWatchdog_def attachLowPowerInterrupt_def
      startupGuard_def beginSD_def loop_def checkpoint_def Let_def sys0_def globals0_def settings0_def
      sys_attached_def env_irq_def env_irq1_def env0_def call_def emit_def tick_def lowPowerISR_def
      assign_def)

theorem C7_witness:
  "\<not> halted sys0 \<and> \<not> online_microSD (glob sys0)
   \<and> \<not> online_dataLogging (glob (beginDataLogging env0 sys0))
   \<and> newEvents sys0 (beginDataLogging env0 sys0) = []
   \<and> \<not> halted sys_woken \<and> online_microSD (glob sys_woken) \<and> logData (settings (glob sys_woken))
   \<and> nameFits env_nofile sys_woken
   \<and> fileOpenOk env_nofile (length (trace (logNameStep env_nofile sys_woken))) = False
   \<and> \<not> halted (beginDataLogging env_nofile sys_woken)
   \<and> \<not> online_dataLogging (glob (beginDataLogging env_nofile sys_woken))
   \<and> newEvents sys_woken (beginDataLogging env_nofile sys_woken) =
        [Ev_findNextAvailableLog, Ev_open ''dataLog00002.ubx'' {O_CREAT, O_APPEND, O_WRITE} False,
         Print ''Failed to create sensor data file'']
   \<and> \<not> halted sys_sd \<and> enableSD (settings (glob sys_sd)) \<and> sdBeginOk env_nocard 0 = False
   \<and> \<not> halted (beginSD env_nocard sys_sd) \<and> \<not> online_microSD (glob (beginSD env_nocard sys_sd))
   \<and> \<not> halted sys_lost \<and> halted (beginSD env0 sys_lost)
   \<and> last (newEvents sys_lost (beginSD env0 sys_lost)) = Ev_powerDown
   \<and> halted (setup_ola env_irq sys0) \<and> last (newEvents sys0 (setup_ola env_irq sys0)) = Ev_powerDown
   \<and> \<not> halted sys_attached \<and> halted (loop env_irq1 sys_attached)
   \<and> last (newEvents sys_attached (loop env_irq1 sys_attached)) = Ev_powerDown
   \<and> returnsQuietly env_nofile \<and> \<not> lowPowerSeen (glob sys_sd)
   \<and> \<not> halted (setup_ola env_nofile sys_sd)
   \<and> \<not> online_dataLogging (glob (setup_ola env_nofile sys_sd))"
proof -
  have h: "\<not> halted sys0" "\<not> halted sys_woken" "\<not> halted sys_sd" "\<not> halted sys_lost"
    "\<not> halted sys_attached"
    by (simp_all add: sys0_def sys_woken_def sys_sd_def sys_lost_def sys_attached_def)
  have a: "\<not> online_microSD (glob sys0)"
    by (simp add: sys0_def globals0_def)
  have b: "online_microSD (glob sys_woken) \<and> logData (settings (glob sys_woken))
      \<and> (gnssDataFileName (glob sys_woken) = [] \<or> openNewLogFile (settings (glob sys_woken))
           \<longrightarrow> nameFits env_nofile sys_woken)
      \<and> \<not> fileOpenOk env_nofile (length (trace (logNameStep env_nofile sys_woken)))"
    by (simp add: nameFits_def sys_woken_def globals1_def globals0_def settings0_def env_nofile_def
        env_next_def env0_def)
  have b': "nameFits env_nofile sys_woken"
    by (simp add: nameFits_def env_nofile_def env_next_def env0_def)
  have c: "((\<forall>n. \<not> sdBeginOk env_nocard n) \<or> (\<forall>n. \<not> sdChdirOk env_nocard n)
       \<or> \<not> enableSD (settings (glob sys_sd))) \<and> \<not> halted (beginSD env_nocard sys_sd)"
    "enableSD (settings (glob sys_sd))" "sdBeginOk env_nocard 0 = False"
    using nocard_run by (simp_all add: env_nocard_def env0_def sys_sd_def sys0_def globals0_def settings0_def)
  have d: "returnsQuietly env_nofile \<and> \<not> lowPowerSeen (glob sys_sd)" "\<forall>n. \<not> fileOpenOk env_nofile n"
    by (auto simp add: returnsQuietly_def env_nofile_def env_next_def env0_def sys_sd_def sys0_def
        globals0_def)
  note th0 = C7_logging_errors_do_not_halt [of sys0 env0, THEN mp, OF h(1)]
  note th1 = C7_logging_errors_do_not_halt [of sys_woken env_nofile, THEN mp, OF h(2)]
  note th2 = C7_logging_errors_do_not_halt [of sys_sd env_nocard, THEN mp, OF h(3)]
  note th3 = C7_logging_errors_do_not_halt [of sys_sd env_nofile, THEN mp, OF h(3)]
  have w0: "\<not> online_dataLogging (glob (beginDataLogging env0 sys0))
      \<and> newEvents sys0 (beginDataLogging env0 sys0) = []"
    using th0 a by blast
  have w1: "\<not> halted (beginDataLogging env_nofile sys_woken)
      \<and> \<not> online_dataLogging (glob (beginDataLogging env_nofile sys_woken))"
    using th1 b by blast
  have w2: "\<not> online_microSD (glob (beginSD env_nocard sys_sd))"
    using th2 c(1) by blast
  have w3: "\<not> halted (setup_ola env_nofile sys_sd)
      \<and> \<not> online_dataLogging (glob (setup_ola env_nofile sys_sd))"
    using th3 d by blast
  have w4: "last (newEvents sys_lost (beginSD env0 sys_lost)) = Ev_powerDown"
    "last (newEvents sys0 (setup_ola env_irq sys0)) = Ev_powerDown"
    "last (newEvents sys_attached (loop env_irq1 sys_attached)) = Ev_powerDown"
    by (simp_all add: lost_run setup_irq_trace loop_irq_trace)
  show ?thesis
    using h a b b' c d w0 w1 w2 w3 w4 nofile_run(3) lost_run(1) halting_runs by blast
qed

subsection \<open>The checkpoints\<close>

lemma phaseStart_simps [simp]:
  "\<not> phaseStart (Poll b)" "\<not> phaseStart Ev_powerDown" "\<not> phaseStart (GuardRead l)"
  "\<not> phaseStart (PrintString x)" "\<not> phaseStart Ev_beginSensors"
  "\<not> phaseStart Ev_findNextAvailableLog" "\<not> phaseStart Ev_strcpy_overrun"
  "\<not> phaseStart (Ev_sd_begin b)" "\<not> phaseStart (Ev_sd_chdir b)"
  "\<not> phaseStart (Ev_open name fl b)" "\<not> phaseStart Ev_getTime"
  "\<not> phaseStart (Ev_timestamp tf dt b)"
  by (simp_all add: phaseStart_def)

lemma clearBefore_simps [simp]:
  "clearBefore (Poll False) ev" "clearBefore Ev_powerDown ev"
  "clearBefore Ev_menuMain Ev_storeData" "clearBefore (Print ''Going to sleep...'') Ev_goToSleep"
  by (simp_all add: clearBefore_def)

lemma polledBefore_tl: "polledBefore (p # evs) \<Longrightarrow> polledBefore evs"
  by (cases evs) simp_all

lemma polledBefore_append:
  "polledBefore (xs @ ys) =
     (polledBefore xs \<and> polledBefore ys
      \<and> (xs \<noteq> [] \<and> ys \<noteq> [] \<and> phaseStart (hd ys) \<longrightarrow> clearBefore (last xs) (hd ys)))"
proof (induction xs rule: polledBefore.induct)
  case 1
  then show ?case by simp
next
  case (2 ev)
  then show ?case by (cases ys) auto
next
  case (3 prev ev evs)
  then show ?case by auto
qed

lemma polledBefore_plain: "list_all (\<lambda>ev. \<not> phaseStart ev) evs \<Longrightarrow> polledBefore evs"
  by (induction evs rule: polledBefore.induct) simp_all

lemma polledFrom_append:
  assumes "polledFrom n s" "trace s' = trace s @ evs" "polledBefore evs"
    "evs \<noteq> [] \<and> phaseStart (hd evs) \<Longrightarrow> afterPoll s"
  shows "polledFrom n s'"
proof -
  have n: "n \<le> length (trace s)" and p: "polledBefore (drop n (trace s))"
    using assms(1) by (simp_all add: polledFrom_def)
  have "clearBefore (last (drop n (trace s))) (hd evs)"
    if "drop n (trace s) \<noteq> []" "evs \<noteq> []" "phaseStart (hd evs)"
  proof -
    have "last (drop n (trace s)) = last (trace s)"
      using that(1) by simp
    then show ?thesis
      using assms(4) that by (auto simp add: afterPoll_def)
  qed
  then have "polledBefore (drop n (trace s) @ evs)"
    using p assms(3) unfolding polledBefore_append by blast
  then show ?thesis
    using n assms(2) by (simp add: polledFrom_def)
qed

lemma keepsStepI: "(\<And>n s. polledFrom n s \<Longrightarrow> polledFrom n (f s)) \<Longrightarrow> keepsStep f"
  by (simp add: keepsStep_def)

lemma keepsStepD: "keepsStep f \<Longrightarrow> polledFrom n s \<Longrightarrow> polledFrom n (f s)"
  by (simp add: keepsStep_def)

lemma keepsStep_plain:
  assumes "emitsOnly plainEvent f"
  shows "keepsStep f"
proof (rule keepsStepI)
  fix n and s :: sys
  assume a: "polledFrom n s"
  from assms obtain evs where "trace (f s) = trace s @ evs" "list_all plainEvent evs"
    unfolding emitsOnly_def by blast
  then have evs: "trace (f s) = trace s @ evs" "list_all (\<lambda>ev. \<not> phaseStart ev) evs"
    by (simp_all add: plainEvent_def [abs_def])
  from a evs(1) polledBefore_plain [OF evs(2)] show "polledFrom n (f s)"
  proof (rule polledFrom_append)
    assume "evs \<noteq> [] \<and> phaseStart (hd evs)"
    then show "afterPoll s"
      using evs(2) by (cases evs) simp_all
  qed
qed

lemma opensPhaseI:
  assumes "\<And>s. \<exists>evs. trace (f s) = trace s @ evs \<and> polledBefore evs"
  shows "opensPhase f"
  unfolding opensPhase_def
proof (intro allI impI, elim conjE)
  fix n and s :: sys
  assume a: "polledFrom n s" and b: "afterPoll s"
  from assms [of s] obtain evs where "trace (f s) = trace s @ evs" "polledBefore evs"
    by blast
  with a show "polledFrom n (f s)"
    using b by (rule polledFrom_append)
qed

lemma keepsStep_id [simp]: "keepsStep (\<lambda>s. s)"
  by (simp add: keepsStep_def)

lemma keepsStep_emit [simp]: "\<not> phaseStart ev \<Longrightarrow> keepsStep (emit ev e)"
  by (rule keepsStep_plain) (simp add: plainEvent_def)

lemma keepsStep_assign [simp]: "keepsStep (assign f)" "keepsStep (\<lambda>s. assign (g s) s)"
  by (rule keepsStep_plain, simp)+

lemma keepsStep_call [simp]: "\<not> phaseStart ev \<Longrightarrow> keepsStep (call ev f e)"
  by (rule keepsStep_plain) (simp add: plainEvent_def)

lemma keepsStep_cond [simp]:
  "keepsStep f \<Longrightarrow> keepsStep g \<Longrightarrow> keepsStep (\<lambda>s. if c s then f s else g s)"
  by (simp add: keepsStep_def)

lemma keepsStep_comp: "keepsStep f \<Longrightarrow> keepsStep g \<Longrightarrow> keepsStep (\<lambda>s. g (f s))"
  by (simp add: keepsStep_def)

lemma keepsStep_bind [simp]:
  assumes "keepsStep (\<lambda>s. snd (p s))" "\<And>x. keepsStep (k x)"
  shows "keepsStep (\<lambda>s. case p s of (r, s1) \<Rightarrow> k r s1)"
  using assms(1) assms(2) [unfolded keepsStep_def] by (simp add: keepsStep_def split_beta)

lemma keepsStep_sd_calls [simp]:
  "keepsStep (\<lambda>s. snd (sd_begin e s))" "keepsStep (\<lambda>s. snd (sd_chdir e s))"
  by (rule keepsStep_plain, simp add: plainEvent_def)+

lemma keepsStep_run_nil [simp]: "keepsStep (run [])"
  by (simp add: keepsStep_def)

lemma keepsStep_run_cons [simp]:
  assumes "keepsStep f" "keepsStep (run fs)"
  shows "keepsStep (run (f # fs))"
  using assms by (simp add: keepsStep_def)

lemma checkpoint_afterPoll: "\<not> halted s \<Longrightarrow> afterPoll (checkpoint e s)"
  by (simp add: afterPoll_def checkpoint_def Let_def)

lemma keepsStep_checkpoint: "keepsStep (checkpoint e)"
  by (rule keepsStep_plain) (simp add: plainEvent_def)

lemma keepsStep_run_checked [simp]:
  assumes "opensPhase f" "keepsStep (run fs)"
  shows "keepsStep (run (checkpoint e # f # fs))"
proof (rule keepsStepI)
  fix n and s :: sys
  assume a: "polledFrom n s"
  show "polledFrom n (run (checkpoint e # f # fs) s)"
  proof (cases "halted s \<or> halted (checkpoint e s)")
    case True
    then show ?thesis
      using a keepsStepD [OF keepsStep_checkpoint a, of e] by auto
  next
    case False
    then have "polledFrom n (f (checkpoint e s))"
      using assms(1) keepsStepD [OF keepsStep_checkpoint a, of e] checkpoint_afterPoll [of s e]
      by (simp add: opensPhase_def)
    then have "polledFrom n (run fs (f (checkpoint e s)))"
      by (rule keepsStepD [OF assms(2)])
    then show ?thesis
      using False by auto
  qed
qed

lemma opensPhase_emit [simp]: "opensPhase (emit ev e)"
  by (rule opensPhaseI) (rule exI [of _ "[ev]"], simp)

lemma opensPhase_call [simp]: "opensPhase (call ev f e)"
  by (rule opensPhaseI) (rule exI [of _ "[ev]"], simp)

lemma opensPhase_cond [simp]:
  "opensPhase f \<Longrightarrow> opensPhase g \<Longrightarrow> opensPhase (\<lambda>s. if c s then f s else g s)"
  by (simp add: opensPhase_def)

lemma opensPhase_run [simp]:
  assumes "opensPhase f" "keepsStep (run fs)"
  shows "opensPhase (run (f # fs))"
  using assms by (simp add: opensPhase_def keepsStep_def)

lemma keepsStep_pollDelay [simp]: "keepsStep (pollDelay n e)"
proof (induction n)
  case 0
  have "pollDelay 0 e = (\<lambda>s. s)" by (simp add: fun_eq_iff)
  then show ?case by simp
next
  case (Suc n)
  have "keepsStep (run [checkpoint e, emit (Delay 1) e])"
    by (simp del: run.simps)
  then have "keepsStep (\<lambda>s. pollDelay n e (run [checkpoint e, emit (Delay 1) e] s))"
    using Suc by (rule keepsStep_comp)
  moreover have "pollDelay (Suc n) e = (\<lambda>s. pollDelay n e (run [checkpoint e, emit (Delay 1) e] s))"
    by (simp add: fun_eq_iff)
  ultimately show ?case by simp
qed

lemma keepsStep_beginSD [simp]: "keepsStep (beginSD e)"
  unfolding beginSD_def [abs_def] beginSD_begin_def [abs_def] beginSD_retry_def [abs_def]
    beginSD_chdir_def [abs_def] Let_def
  by (simp del: run.simps add: phaseStart_def)

lemma emitsOnly_sd_open [simp]:
  "(\<And>name fl b. Q (Ev_open name fl b)) \<Longrightarrow> emitsOnly Q (\<lambda>s. snd (sd_open (name s) fl e s))"
  by (simp add: emitsOnly_def)

lemma emitsOnly_allocateLogName [simp]:
  "Q Ev_findNextAvailableLog \<Longrightarrow> Q Ev_strcpy_overrun \<Longrightarrow> emitsOnly Q (allocateLogName e)"
  by (simp add: emitsOnly_def)

lemma plain_updateDataFileCreate: "emitsOnly plainEvent (updateDataFileCreate e)"
proof (rule emitsOnlyI)
  fix s :: sys
  show "\<exists>evs. trace (updateDataFileCreate e s) = trace s @ evs \<and> list_all plainEvent evs"
    by (cases "halted s")
       (simp_all add: updateDataFileCreate_def Let_def split_beta plainEvent_def phaseStart_def
          show_bool_def)
qed

lemma plain_beginDataLogging: "emitsOnly plainEvent (beginDataLogging e)"
  unfolding beginDataLogging_def [abs_def] logNameStep_def [abs_def] openLogFile_def [abs_def] Let_def
  by (simp del: run.simps add: plain_updateDataFileCreate plainEvent_def phaseStart_def)

lemma plain_callBeginSensors: "emitsOnly plainEvent (callBeginSensors e)"
proof (rule emitsOnlyI)
  fix s :: sys
  show "\<exists>evs. trace (callBeginSensors e s) = trace s @ evs \<and> list_all plainEvent evs"
    by (simp add: callBeginSensors_def Let_def plainEvent_def phaseStart_def
        split: option.splits prod.splits)
qed

lemma opensPhase_parts [simp]: "opensPhase (beginQwiic e)" "opensPhase (disableIMU e)"
  unfolding beginQwiic_def [abs_def] disableIMU_def [abs_def]
  by (simp_all del: run.simps add: phaseStart_def)

lemma setup_ola_polled:
  assumes "\<not> halted s"
  shows "polledBefore (drop 10 (newEvents s (setup_ola e s)))"
proof -
  define boot where "boot = run [emit (Call ''pinMode(PIN_POWER_LOSS, INPUT)'') e,
          emit (Delay 1) e,
          attachLowPowerInterrupt e,
          startWatchdog e,
          emit (Call ''powerLEDOn()'') e,
          emit (Call ''pinMode(PIN_STAT_LED, OUTPUT)'') e,
          emit (Call ''digitalWrite(PIN_STAT_LED, HIGH)'') e,
          startupGuard e] s"
  have "polledFrom (length (trace s) + 10) boot"
    unfolding polledFrom_def boot_def setup_boot_trace [OF assms] by simp
  moreover have "keepsStep (run [(\<lambda>s. if 0 \<le> PIN_LOGIC_DEBUG
                then run [emit (Call ''pinMode(PIN_LOGIC_DEBUG, OUTPUT)'') e,
                          emit (Call ''digitalWrite(PIN_LOGIC_DEBUG, HIGH)'') e] s
                else s),
          emit (Call ''Serial.begin(115200)'') e,
          emit (Print []) e,
          emit (Call ''SPI.begin()'') e,
          beginSD e,
          checkpoint e,
          call Ev_loadSettings (loadSettings e) e,
          checkpoint e,
          emit (Call ''Serial.flush()'') e,
          emit (Call ''Serial.begin(settings.serialTerminalBaudRate)'') e,
          emit (Print ''Artemis OpenLog GNSS v1.1'') e,
          checkpoint e,
          beginQwiic e,
          checkpoint e,
          emit (Call ''analogReadResolution(14)'') e,
          beginDataLogging e,
          checkpoint e,
          disableIMU e,
          checkpoint e,
          (\<lambda>s. if online_microSD (glob s) = True then emit (Print ''SD card online'') e s
                else emit (Print ''SD card offline'') e s),
          (\<lambda>s. if online_dataLogging (glob s) = True then emit (Print ''Data logging online'') e s
                else emit (Print ''Datalogging offline'') e s),
          (\<lambda>s. if enableTerminalOutput (settings (glob s)) = False \<and> logData (settings (glob s)) = True
                then emit (Print ''Logging to microSD card with no terminal output'') e s
                else s),
          callBeginSensors e,
          (\<lambda>s. assign (\<lambda>gl. gl\<lparr>measurementStartTime := rtcMillis e (length (trace s))\<rparr>) s),
          checkpoint e,
          emit (Call ''digitalWrite(PIN_STAT_LED, LOW)'') e])"
    by (simp del: run.simps
          add: phaseStart_def keepsStep_plain [OF plain_beginDataLogging]
            keepsStep_plain [OF plain_callBeginSensors])
  ultimately have "polledFrom (length (trace s) + 10) (setup_ola e s)"
    unfolding setup_ola_split boot_def [symmetric] by (rule keepsStepD [rotated])
  then show ?thesis
    by (simp add: polledFrom_def newEvents_def add.commute)
qed

lemma sleepIfDue_opens: "opensPhase (sleepIfDue e)"
proof (rule opensPhaseI)
  fix s :: sys
  show "\<exists>evs. trace (sleepIfDue e s) = trace s @ evs \<and> polledBefore evs"
  proof (cases "halted s")
    case True
    then show ?thesis by (simp add: sleepIfDue_def)
  next
    case False
    then show ?thesis by (simp add: sleepIfDue_trace)
  qed
qed

lemma menu_storeData_opens:
  "opensPhase (run [(\<lambda>s. if serialAvailable e (length (trace s)) then call Ev_menuMain (menuMain e) e s else s),
                    call Ev_storeData (storeData e) e])"
proof (rule opensPhaseI)
  fix s :: sys
  show "\<exists>evs. trace (run [(\<lambda>s. if serialAvailable e (length (trace s))
                                then call Ev_menuMain (menuMain e) e s else s),
                    call Ev_storeData (storeData e) e] s) = trace s @ evs \<and> polledBefore evs"
    by (cases "halted s") auto
qed

lemma loop_phases:
  "loop e s =
     run [checkpoint e,
          run [(\<lambda>s. if serialAvailable e (length (trace s)) then call Ev_menuMain (menuMain e) e s else s),
               call Ev_storeData (storeData e) e],
          checkpoint e,
          sleepIfDue e] s"
  by (auto simp add: loop_def)

lemma loop_polled:
  "polledBefore (newEvents s (loop e s))"
proof -
  have "polledFrom (length (trace s)) s"
    by (simp add: polledFrom_def)
  moreover have "keepsStep (run [checkpoint e,
          run [(\<lambda>s. if serialAvailable e (length (trace s)) then call Ev_menuMain (menuMain e) e s else s),
               call Ev_storeData (storeData e) e],
          checkpoint e,
          sleepIfDue e])"
    using menu_storeData_opens [of e] sleepIfDue_opens [of e] by (simp del: run.simps)
  ultimately have "polledFrom (length (trace s)) (loop e s)"
    unfolding loop_phases by (rule keepsStepD [rotated])
  then show ?thesis
    by (simp add: polledFrom_def newEvents_def)
qed

lemma loop_first_poll:
  assumes "\<not> halted s"
  shows "take 1 (newEvents s (loop e s)) = [Poll (lowPowerSeen (glob s))]"
proof -
  have "emitsOnly (\<lambda>ev. True) (run [(\<lambda>s. if serialAvailable e (length (trace s))
                                          then call Ev_menuMain (menuMain e) e s else s),
          call Ev_storeData (storeData e) e,
          checkpoint e,
          sleepIfDue e])"
    unfolding sleepIfDue_def [abs_def] Let_def by (simp del: run.simps)
  then obtain evs where "trace (run [(\<lambda>s. if serialAvailable e (length (trace s))
                                          then call Ev_menuMain (menuMain e) e s else s),
          call Ev_storeData (storeData e) e,
          checkpoint e,
          sleepIfDue e] (checkpoint e s)) = trace (checkpoint e s) @ evs"
    unfolding emitsOnly_def by blast
  moreover have "loop e s = run [(\<lambda>s. if serialAvailable e (length (trace s))
                                          then call Ev_menuMain (menuMain e) e s else s),
          call Ev_storeData (storeData e) e,
          checkpoint e,
          sleepIfDue e] (checkpoint e s)"
    using assms by (simp add: loop_def)
  ultimately show ?thesis
    by (simp add: newEvents_def checkpoint_trace)
qed

lemma clearRounds_simps [simp]:
  "clearRounds 0 = []" "clearRounds (Suc k) = Poll False # Delay 1 # clearRounds k"
  "length (clearRounds k) = 2 * k"
  by (induction k) (simp_all add: clearRounds_def)

lemma pollDelay_rounds:
  assumes "neverReturns e" "\<not> halted s"
  shows "if halted (pollDelay n e s)
         then \<exists>k<n. trace (pollDelay n e s) = trace s @ clearRounds k @ [Poll True, Ev_powerDown]
         else trace (pollDelay n e s) = trace s @ clearRounds n"
  using assms(2)
proof (induction n arbitrary: s)
  case 0
  then show ?case by simp
next
  case (Suc n)
  show ?case
  proof (cases "lowPowerSeen (glob s)")
    case True
    then have "halted (checkpoint e s)" "trace (checkpoint e s) = trace s @ [Poll True, Ev_powerDown]"
      using assms(1) Suc.prems by (simp_all add: checkpoint_def Let_def neverReturns_def)
    then have "halted (pollDelay (Suc n) e s)"
      "trace (pollDelay (Suc n) e s) = trace s @ clearRounds 0 @ [Poll True, Ev_powerDown]"
      using Suc.prems by simp_all
    then show ?thesis
      by (metis zero_less_Suc)
  next
    case False
    define s1 where "s1 = emit (Delay 1) e (checkpoint e s)"
    have s1: "\<not> halted s1" "trace s1 = trace s @ [Poll False, Delay 1]"
      using False Suc.prems by (simp_all add: s1_def checkpoint_def Let_def)
    have eq: "pollDelay (Suc n) e s = pollDelay n e s1"
      using False Suc.prems by (simp add: s1_def checkpoint_def Let_def)
    show ?thesis
    proof (cases "halted (pollDelay n e s1)")
      case True
      with Suc.IH [OF s1(1)] obtain k where "k < n"
        "trace (pollDelay n e s1) = trace s1 @ clearRounds k @ [Poll True, Ev_powerDown]"
        by auto
      then have "Suc k < Suc n"
        "trace (pollDelay (Suc n) e s) = trace s @ clearRounds (Suc k) @ [Poll True, Ev_powerDown]"
        unfolding eq s1(2) by simp_all
      then show ?thesis
        using True unfolding eq by metis
    next
      case False
      with Suc.IH [OF s1(1)] show ?thesis
        unfolding eq s1(2) by simp
    qed
  qed
qed

lemma emitsOnly_trace:
  "emitsOnly Q f \<Longrightarrow> \<exists>evs. trace (f s) = trace s @ evs"
  unfolding emitsOnly_def by blast

lemma beginSD_tail_extends:
  "\<exists>evs. trace (beginSD_chdir e s) = trace s @ evs"
  "\<exists>evs. trace (beginSD_retry e s) = trace s @ evs"
proof -
  have "emitsOnly (\<lambda>ev. True) (beginSD_chdir e)" "emitsOnly (\<lambda>ev. True) (beginSD_retry e)"
    unfolding beginSD_retry_def [abs_def] beginSD_chdir_def [abs_def] Let_def
    by (simp_all del: run.simps)
  then show "\<exists>evs. trace (beginSD_chdir e s) = trace s @ evs"
    "\<exists>evs. trace (beginSD_retry e s) = trace s @ evs"
    by (simp_all add: emitsOnly_trace)
qed

lemma pollDelay_clear:
  assumes "neverReturns e" "\<not> halted (pollDelay n e s)"
  shows "trace (pollDelay n e s) = trace s @ clearRounds n" "\<not> halted s"
proof -
  show h: "\<not> halted s"
    using assms(2) by auto
  show "trace (pollDelay n e s) = trace s @ clearRounds n"
    using pollDelay_rounds [OF assms(1) h, of n] assms(2) by simp
qed

lemma beginSD_waits:
  assumes never: "neverReturns e" and run: "\<not> halted s" and sd: "enableSD (settings (glob s))"
    and ret: "\<not> halted (beginSD e s)"
  shows "\<exists>rest. newEvents s (beginSD e s) =
           [Call ''pinMode(PIN_MICROSD_POWER, OUTPUT)'', Call ''pinMode(PIN_MICROSD_CHIP_SELECT, OUTPUT)'',
            Call ''digitalWrite(PIN_MICROSD_CHIP_SELECT, HIGH)'', Call ''microSDPowerOn()'']
           @ clearRounds 10
           @ Ev_sd_begin (sdBeginOk e (length (trace s) + 24))
             # (if sdBeginOk e (length (trace s) + 24) then rest
                else clearRounds 250 @ Ev_sd_begin (sdBeginOk e (length (trace s) + 525)) # rest)"
proof -
  define s4 where "s4 = emit (Call ''microSDPowerOn()'') e
     (emit (Call ''digitalWrite(PIN_MICROSD_CHIP_SELECT, HIGH)'') e
       (emit (Call ''pinMode(PIN_MICROSD_CHIP_SELECT, OUTPUT)'') e
         (emit (Call ''pinMode(PIN_MICROSD_POWER, OUTPUT)'') e s)))"
  define s5 where "s5 = pollDelay 10 e s4"
  define s6 where "s6 = snd (sd_begin e s5)"
  have eq: "beginSD e s = run [beginSD_begin e] s5"
    using sd run by (simp add: beginSD_def s4_def s5_def)
  have h5: "\<not> halted s5"
    using ret unfolding eq by (auto split: if_splits)
  then have eq5: "beginSD e s = beginSD_begin e s5"
    unfolding eq by simp
  have t4: "trace s4 = trace s @ [Call ''pinMode(PIN_MICROSD_POWER, OUTPUT)'', Call ''pinMode(PIN_MICROSD_CHIP_SELECT, OUTPUT)'',
            Call ''digitalWrite(PIN_MICROSD_CHIP_SELECT, HIGH)'', Call ''microSDPowerOn()'']"
    by (simp add: s4_def)
  have t5: "trace s5 = trace s4 @ clearRounds 10"
    using pollDelay_clear(1) [OF never, of 10 s4] h5 by (simp add: s5_def)
  have n5: "length (trace s5) = length (trace s) + 24"
    unfolding t5 t4 by simp
  have t6: "trace s6 = trace s5 @ [Ev_sd_begin (sdBeginOk e (length (trace s) + 24))]" "\<not> halted s6"
    using h5 n5 by (simp_all add: s6_def sd_begin_def Let_def)
  show ?thesis
  proof (cases "sdBeginOk e (length (trace s) + 24)")
    case True
    then have "beginSD e s = beginSD_chdir e s6"
      unfolding eq5 using n5 by (simp add: beginSD_begin_def sd_begin_def Let_def s6_def)
    with beginSD_tail_extends(1) [of e s6] obtain rest where "trace (beginSD e s) = trace s6 @ rest"
      by auto
    then show ?thesis
      using True unfolding t6 t5 t4 by (simp add: newEvents_def)
  next
    case False
    define s7 where "s7 = pollDelay 250 e s6"
    have eq7: "beginSD e s = run [beginSD_retry e] s7"
      unfolding eq5 using False n5 t6(2)
      by (simp add: beginSD_begin_def sd_begin_def Let_def s6_def s7_def)
    have h7: "\<not> halted s7"
      using ret unfolding eq7 by (auto split: if_splits)
    have t7: "trace s7 = trace s6 @ clearRounds 250"
      using pollDelay_clear(1) [OF never, of 250 s6] h7 by (simp add: s7_def)
    have n7: "length (trace s7) = length (trace s) + 525"
      unfolding t7 t6 n5 [symmetric] by (simp add: n5)
    define s8 where "s8 = snd (sd_begin e s7)"
    have t8: "trace s8 = trace s7 @ [Ev_sd_begin (sdBeginOk e (length (trace s) + 525))]"
      using n7 by (simp add: s8_def sd_begin_def Let_def)
    have "\<exists>rest. trace (beginSD_retry e s7) = trace s8 @ rest"
    proof (cases "sdBeginOk e (length (trace s) + 525)")
      case True
      then have "beginSD_retry e s7 = beginSD_chdir e s8"
        using n7 by (simp add: beginSD_retry_def sd_begin_def Let_def s8_def)
      then show ?thesis
        using beginSD_tail_extends(1) [of e s8] by simp
    next
      case False
      then have "emitsOnly (\<lambda>ev. True) (run [emit (Print ''SD init failed. Is card present? Formatted?'') e,
                   emit (Call ''digitalWrite(PIN_MICROSD_CHIP_SELECT, HIGH)'') e,
                   assign (\<lambda>gl. gl\<lparr>online_microSD := False\<rparr>)])"
        by (simp del: run.simps)
      from emitsOnly_trace [OF this, of s8] False show ?thesis
        using n7 by (simp add: beginSD_retry_def sd_begin_def Let_def s8_def del: run.simps)
    qed
    then obtain rest where "trace (beginSD e s) = trace s8 @ rest"
      unfolding eq7 using h7 by auto
    then show ?thesis
      using False unfolding t8 t7 t6 t5 t4 by (simp add: newEvents_def)
  qed
qed

text \<open>C4. \<^verbatim>\<open>setup\<close> reads the power-loss line as its eleventh action, after the interrupt is
  attached and the watchdog and the LEDs are set up, whatever the flag says; when the line reads
  LOW the guard calls \<^verbatim>\<open>powerDown\<close>, as a checkpoint does that finds \<^verbatim>\<open>lowPowerSeen\<close> set. A
  checkpoint reads the flag as it is at that moment: it calls \<^verbatim>\<open>powerDown\<close> when the flag is set
  and goes on when it is clear. In \<^verbatim>\<open>setup\<close> and in \<^verbatim>\<open>loop\<close> every observation of the loss of
  power, also inside \<^verbatim>\<open>beginSD\<close>, is followed at once by the call of \<^verbatim>\<open>powerDown\<close>; when
  \<^verbatim>\<open>powerDown\<close> never returns, that call is the last event and the program has stopped, so no
  later phase runs: whatever statements follow a checkpoint that finds the flag set, or the guard
  that reads LOW, none of them runs. The checkpoints stand at the phase boundaries: after the start-up guard, the
  first event of every phase of \<^verbatim>\<open>setup\<close> and every \<^verbatim>\<open>delay(1)\<close> of the wait loops of \<^verbatim>\<open>beginSD\<close>
  comes directly after a poll that found the flag clear (or after a \<^verbatim>\<open>powerDown\<close> that returned);
  \<^verbatim>\<open>loop\<close> begins with a poll, and its menu, \<^verbatim>\<open>storeData\<close> and \<^verbatim>\<open>goToSleep\<close> with its message come
  directly after such a poll. A wait loop of \<^verbatim>\<open>n\<close> rounds polls before each delay: it runs its \<^verbatim>\<open>n\<close>
  rounds when the flag stays clear and powers down at the first poll that finds it set; and a
  \<^verbatim>\<open>beginSD\<close> that returns with the card enabled has run ten such rounds before the first
  \<^verbatim>\<open>sd.begin\<close>, and 250 more before the second when the first failed.\<close>

theorem C4_power_loss_checkpoints:
  "\<not> halted s \<longrightarrow>
     take 11 (newEvents s (setup_ola e s)) =
       [Call ''pinMode(PIN_POWER_LOSS, INPUT)'', Delay 1,
        Call ''attachInterrupt(digitalPinToInterrupt(PIN_POWER_LOSS), lowPowerISR, FALLING)'',
        Call ''am_hal_clkgen_control(AM_HAL_CLKGEN_CONTROL_LFRC_START, 0)'',
        Call ''am_hal_wdt_init(&g_sWatchdogConfig)'',
        Call ''NVIC_EnableIRQ(WDT_IRQn)'',
        Call ''am_hal_wdt_start()'',
        Call ''powerLEDOn()'',
        Call ''pinMode(PIN_STAT_LED, OUTPUT)'',
        Call ''digitalWrite(PIN_STAT_LED, HIGH)'',
        GuardRead (pinPowerLoss e (length (trace s) + 10))]
     \<and> newEvents s (startupGuard e s) =
         GuardRead (pinPowerLoss e (length (trace s)))
           # (if pinPowerLoss e (length (trace s)) = LOW then [Ev_powerDown] else [])
     \<and> newEvents s (checkpoint e s) =
         Poll (lowPowerSeen (glob s)) # (if lowPowerSeen (glob s) then [Ev_powerDown] else [])
     \<and> (neverReturns e \<longrightarrow>
          halted (startupGuard e s) = (pinPowerLoss e (length (trace s)) = LOW)
          \<and> halted (checkpoint e s) = lowPowerSeen (glob s)
          \<and> (pinPowerLoss e (length (trace s)) = LOW \<longrightarrow>
                run (startupGuard e # fs) s = startupGuard e s)
          \<and> (lowPowerSeen (glob s) \<longrightarrow> run (checkpoint e # fs) s = checkpoint e s))
     \<and> (\<forall>i. i < length (newEvents s (setup_ola e s))
              \<and> observesPowerLoss (newEvents s (setup_ola e s) ! i) \<longrightarrow>
            Suc i < length (newEvents s (setup_ola e s))
            \<and> newEvents s (setup_ola e s) ! Suc i = Ev_powerDown
            \<and> (neverReturns e \<longrightarrow>
                 Suc (Suc i) = length (newEvents s (setup_ola e s)) \<and> halted (setup_ola e s)))
     \<and> (\<forall>i. i < length (newEvents s (loop e s))
              \<and> observesPowerLoss (newEvents s (loop e s) ! i) \<longrightarrow>
            Suc i < length (newEvents s (loop e s))
            \<and> newEvents s (loop e s) ! Suc i = Ev_powerDown
            \<and> (neverReturns e \<longrightarrow>
                 Suc (Suc i) = length (newEvents s (loop e s)) \<and> halted (loop e s)))
     \<and> polledBefore (drop 10 (newEvents s (setup_ola e s)))
     \<and> take 1 (newEvents s (loop e s)) = [Poll (lowPowerSeen (glob s))]
     \<and> polledBefore (newEvents s (loop e s))
     \<and> (neverReturns e \<longrightarrow>
          (if halted (pollDelay n e s)
           then \<exists>k<n. newEvents s (pollDelay n e s) = clearRounds k @ [Poll True, Ev_powerDown]
           else newEvents s (pollDelay n e s) = clearRounds n))
     \<and> (neverReturns e \<and> enableSD (settings (glob s)) \<and> \<not> halted (beginSD e s) \<longrightarrow>
          (\<exists>rest. newEvents s (beginSD e s) =
           [Call ''pinMode(PIN_MICROSD_POWER, OUTPUT)'', Call ''pinMode(PIN_MICROSD_CHIP_SELECT, OUTPUT)'',
            Call ''digitalWrite(PIN_MICROSD_CHIP_SELECT, HIGH)'', Call ''microSDPowerOn()'']
           @ clearRounds 10
           @ Ev_sd_begin (sdBeginOk e (length (trace s) + 24))
             # (if sdBeginOk e (length (trace s) + 24) then rest
                else clearRounds 250 @ Ev_sd_begin (sdBeginOk e (length (trace s) + 525)) # rest)))"
proof (intro impI conjI)
  assume run: "\<not> halted s"
  show "take 11 (newEvents s (setup_ola e s)) =
       [Call ''pinMode(PIN_POWER_LOSS, INPUT)'', Delay 1,
        Call ''attachInterrupt(digitalPinToInterrupt(PIN_POWER_LOSS), lowPowerISR, FALLING)'',
        Call ''am_hal_clkgen_control(AM_HAL_CLKGEN_CONTROL_LFRC_START, 0)'',
        Call ''am_hal_wdt_init(&g_sWatchdogConfig)'',
        Call ''NVIC_EnableIRQ(WDT_IRQn)'',
        Call ''am_hal_wdt_start()'',
        Call ''powerLEDOn()'',
        Call ''pinMode(PIN_STAT_LED, OUTPUT)'',
        Call ''digitalWrite(PIN_STAT_LED, HIGH)'',
        GuardRead (pinPowerLoss e (length (trace s) + 10))]"
    using run by (rule setup_ola_prefix)
  show "newEvents s (startupGuard e s) =
         GuardRead (pinPowerLoss e (length (trace s)))
           # (if pinPowerLoss e (length (trace s)) = LOW then [Ev_powerDown] else [])"
    by (simp add: newEvents_def startupGuard_def Let_def)
  show "newEvents s (checkpoint e s) =
         Poll (lowPowerSeen (glob s)) # (if lowPowerSeen (glob s) then [Ev_powerDown] else [])"
    by (simp add: newEvents_def checkpoint_trace)
  show "\<forall>i. i < length (newEvents s (setup_ola e s))
              \<and> observesPowerLoss (newEvents s (setup_ola e s) ! i) \<longrightarrow>
            Suc i < length (newEvents s (setup_ola e s))
            \<and> newEvents s (setup_ola e s) ! Suc i = Ev_powerDown
            \<and> (neverReturns e \<longrightarrow>
                 Suc (Suc i) = length (newEvents s (setup_ola e s)) \<and> halted (setup_ola e s))"
    using guardedStep_observation [OF guardedStep_setup run, where e = e] by blast
  show "\<forall>i. i < length (newEvents s (loop e s))
              \<and> observesPowerLoss (newEvents s (loop e s) ! i) \<longrightarrow>
            Suc i < length (newEvents s (loop e s))
            \<and> newEvents s (loop e s) ! Suc i = Ev_powerDown
            \<and> (neverReturns e \<longrightarrow>
                 Suc (Suc i) = length (newEvents s (loop e s)) \<and> halted (loop e s))"
    using guardedStep_observation [OF guardedStep_loop run, where e = e] by blast
  show "polledBefore (drop 10 (newEvents s (setup_ola e s)))"
    using run by (rule setup_ola_polled)
  show "take 1 (newEvents s (loop e s)) = [Poll (lowPowerSeen (glob s))]"
    using run by (rule loop_first_poll)
  show "polledBefore (newEvents s (loop e s))"
    by (rule loop_polled)
next
  assume run: "\<not> halted s" and never: "neverReturns e"
  show g: "halted (startupGuard e s) = (pinPowerLoss e (length (trace s)) = LOW)"
    using run never by (simp add: startupGuard_def Let_def neverReturns_def)
  show "run (startupGuard e # fs) s = startupGuard e s" if "pinPowerLoss e (length (trace s)) = LOW"
    using run g that by simp
  show c: "halted (checkpoint e s) = lowPowerSeen (glob s)"
    using run never by (simp add: checkpoint_def Let_def neverReturns_def)
  show "run (checkpoint e # fs) s = checkpoint e s" if "lowPowerSeen (glob s)"
    using run c that by simp
  show "if halted (pollDelay n e s)
        then \<exists>k<n. newEvents s (pollDelay n e s) = clearRounds k @ [Poll True, Ev_powerDown]
        else newEvents s (pollDelay n e s) = clearRounds n"
  proof (cases "halted (pollDelay n e s)")
    case True
    with pollDelay_rounds [OF never run, of n] obtain k
      where "k < n" "trace (pollDelay n e s) = trace s @ clearRounds k @ [Poll True, Ev_powerDown]"
      by auto
    then have "k < n \<and> newEvents s (pollDelay n e s) = clearRounds k @ [Poll True, Ev_powerDown]"
      by (simp add: newEvents_def)
    then show ?thesis
      using True by auto
  next
    case False
    with pollDelay_rounds [OF never run, of n] show ?thesis
      by (simp add: newEvents_def)
  qed
next
  assume run: "\<not> halted s"
    and sd: "neverReturns e \<and> enableSD (settings (glob s)) \<and> \<not> halted (beginSD e s)"
  show "\<exists>rest. newEvents s (beginSD e s) =
           [Call ''pinMode(PIN_MICROSD_POWER, OUTPUT)'', Call ''pinMode(PIN_MICROSD_CHIP_SELECT, OUTPUT)'',
            Call ''digitalWrite(PIN_MICROSD_CHIP_SELECT, HIGH)'', Call ''microSDPowerOn()'']
           @ clearRounds 10
           @ Ev_sd_begin (sdBeginOk e (length (trace s) + 24))
             # (if sdBeginOk e (length (trace s) + 24) then rest
                else clearRounds 250 @ Ev_sd_begin (sdBeginOk e (length (trace s) + 525)) # rest)"
    using beginSD_waits [of e s] run sd by blast
qed

theorem C4_witness:
  "\<not> halted sys0 \<and> neverReturns env_missed \<and> neverReturns env_irq \<and> neverReturns env_irq1
   \<and> neverReturns env0 \<and> \<not> halted sys_attached
   \<and> pinPowerLoss env_missed 10 = LOW \<and> \<not> lowPowerIRQ env_missed 10
   \<and> newEvents sys0 (setup_ola env_missed sys0) ! 10 = GuardRead LOW
   \<and> newEvents sys0 (setup_ola env_missed sys0) ! 11 = Ev_powerDown
   \<and> length (newEvents sys0 (setup_ola env_missed sys0)) = 12
   \<and> halted (setup_ola env_missed sys0)
   \<and> newEvents sys0 (setup_ola env_irq sys0) ! 21 = Ev_loadSettings
   \<and> newEvents sys0 (setup_ola env_irq sys0) ! 22 = Poll True
   \<and> newEvents sys0 (setup_ola env_irq sys0) ! 23 = Ev_powerDown
   \<and> length (newEvents sys0 (setup_ola env_irq sys0)) = 24
   \<and> halted (setup_ola env_irq sys0)
   \<and> newEvents sys_attached (loop env_irq1 sys_attached) = [Poll False, Ev_storeData, Poll True, Ev_powerDown]
   \<and> halted (loop env_irq1 sys_attached)
   \<and> \<not> halted (pollDelay 2 env0 sys0)
   \<and> newEvents sys0 (pollDelay 2 env0 sys0) = [Poll False, Delay 1, Poll False, Delay 1]
   \<and> halted (checkpoint env0 sys_lost)
   \<and> newEvents sys_lost (checkpoint env0 sys_lost) = [Poll True, Ev_powerDown]"
proof -
  have a: "\<not> halted sys0" "\<not> halted sys_attached" "\<not> halted sys_lost" "lowPowerSeen (glob sys_lost)"
    by (simp_all add: sys0_def sys_attached_def sys_lost_def)
  have b: "neverReturns env_missed" "neverReturns env_irq" "neverReturns env_irq1" "neverReturns env0"
    by (simp_all add: neverReturns_def env_missed_def env_irq_def env_irq1_def env0_def)
  have c: "pinPowerLoss env_missed 10 = LOW" "\<not> lowPowerIRQ env_missed 10"
    by (simp_all add: env_missed_def env0_def)
  have d: "\<not> halted (pollDelay 2 env0 sys0)"
    by (simp add: numeral_2_eq_2 checkpoint_def Let_def tick_def sys0_def globals0_def env0_def)
  note th1 = C4_power_loss_checkpoints [where s = sys0 and e = env_missed, THEN mp, OF a(1), THEN conjunct2,
      THEN conjunct2, THEN conjunct2, THEN conjunct2, THEN conjunct1, THEN spec, of 10]
  note th2 = C4_power_loss_checkpoints [where s = sys0 and e = env_irq, THEN mp, OF a(1), THEN conjunct2,
      THEN conjunct2, THEN conjunct2, THEN conjunct2, THEN conjunct1, THEN spec, of 22]
  note th3 = C4_power_loss_checkpoints [where s = sys_attached and e = env_irq1, THEN mp, OF a(2), THEN conjunct2,
      THEN conjunct2, THEN conjunct2, THEN conjunct2, THEN conjunct2, THEN conjunct1, THEN spec, of 2]
  note th4 = C4_power_loss_checkpoints [where s = sys0 and e = env0 and n = 2, THEN mp, OF a(1), THEN conjunct2,
      THEN conjunct2, THEN conjunct2, THEN conjunct2, THEN conjunct2, THEN conjunct2, THEN conjunct2,
      THEN conjunct2, THEN conjunct2, THEN conjunct1, THEN mp, OF b(4)]
  note th5 = C4_power_loss_checkpoints [where s = sys_lost and e = env0, THEN mp, OF a(3), THEN conjunct2,
      THEN conjunct2, THEN conjunct1]
  note th6 = C4_power_loss_checkpoints [where s = sys_lost and e = env0, THEN mp, OF a(3), THEN conjunct2,
      THEN conjunct2, THEN conjunct2, THEN conjunct1, THEN mp, OF b(4), THEN conjunct2, THEN conjunct1]
  have w1: "newEvents sys0 (setup_ola env_missed sys0) ! 11 = Ev_powerDown
      \<and> 12 = length (newEvents sys0 (setup_ola env_missed sys0))
      \<and> halted (setup_ola env_missed sys0)"
    using th1 b(1) by (simp add: setup_missed_trace observesPowerLoss_def)
  have w2: "newEvents sys0 (setup_ola env_irq sys0) ! 23 = Ev_powerDown
      \<and> 24 = length (newEvents sys0 (setup_ola env_irq sys0))
      \<and> halted (setup_ola env_irq sys0)"
    using th2 b(2) by (simp add: setup_irq_trace observesPowerLoss_def)
  have w3: "halted (loop env_irq1 sys_attached)"
    using th3 b(3) by (simp add: loop_irq_trace observesPowerLoss_def)
  have w4: "newEvents sys0 (pollDelay 2 env0 sys0) = [Poll False, Delay 1, Poll False, Delay 1]"
    using th4 d by (simp add: numeral_2_eq_2)
  have w5: "halted (checkpoint env0 sys_lost)"
    "newEvents sys_lost (checkpoint env0 sys_lost) = [Poll True, Ev_powerDown]"
    using th5 th6 a(4) by simp_all
  have w6: "newEvents sys0 (setup_ola env_missed sys0) ! 10 = GuardRead LOW"
    "newEvents sys0 (setup_ola env_irq sys0) ! 21 = Ev_loadSettings"
    "newEvents sys0 (setup_ola env_irq sys0) ! 22 = Poll True"
    by (simp_all add: setup_missed_trace setup_irq_trace)
  have w7: "newEvents sys_attached (loop env_irq1 sys_attached) = [Poll False, Ev_storeData, Poll True, Ev_powerDown]"
    by (rule loop_irq_trace)
  show ?thesis
    using a(1,2) b c d w1 w2 w3 w4 w5 w6 w7 by simp
qed


end
